theory Spec2Isabelle
  imports Complex_Main "HOL-Library.Multiset"
begin

section \<open>Settlement aggregation pipeline (mapScraper/settlements.py)\<close>

text \<open>
  A shallow embedding of the settlement pipeline. Python \<open>int\<close> is \<open>int\<close>; Python
  \<open>float\<close> (coordinates, proportions, rates) is idealised as \<open>real\<close>, so the theorems
  about coordinates and rounded shares speak of the exact values the floating-point
  code approximates. The comparison of the unresolved rate with \<open>0.1\<close> is made on
  exact quotients; the quotient of two list lengths, correctly rounded, compares with
  the double nearest to \<open>0.1\<close> the same way for every list of fewer than \<open>10^15\<close>
  names. Names are strings of 8-bit characters, and \<open>strip\<close> removes the ASCII
  whitespace characters. Every exception the modelled functions can raise is a value of
  \<open>py_error\<close>. Files, the environment and the geocoding service are parameters of the
  functions that use them; datasets and checkpoints read from disk are taken to be
  well-formed, and writing them does not fail.
\<close>

datatype py_error = ZeroDivisionError | ValueError

subsection \<open>Data model\<close>

text \<open>
  A settlement is a dict with keys \<open>name\<close> and \<open>population\<close> and an optional key
  \<open>constituent_settlements\<close>; after geocoding it also carries \<open>lat\<close> and \<open>lon\<close>,
  and in the written dataset \<open>grid_x\<close> and \<open>grid_y\<close>.
\<close>

record settlement =
  name :: string
  population :: int
  constituent_settlements :: "string list option"

record geo_settlement = settlement +
  lat :: real
  lon :: real

record final_settlement = geo_settlement +
  grid_x :: real
  grid_y :: real

definition sum_population :: "('a settlement_scheme) list \<Rightarrow> int" where
  "sum_population xs = sum_list (map population xs)"

subsection \<open>Strings: \<open>str.split(',')\<close> and \<open>str.strip()\<close>\<close>

fun split_on :: "char \<Rightarrow> string \<Rightarrow> string list" where
  "split_on c [] = [[]]"
| "split_on c (x # xs) =
     (if x = c then [] # split_on c xs
      else (case split_on c xs of
              [] \<Rightarrow> [[x]]
            | p # ps \<Rightarrow> (x # p) # ps))"

definition isspace :: "char \<Rightarrow> bool" where
  "isspace c = ((of_char c :: nat) \<in> {9, 10, 11, 12, 13, 28, 29, 30, 31, 32})"

definition strip :: "string \<Rightarrow> string" where
  "strip s = rev (dropWhile isspace (rev (dropWhile isspace s)))"

text \<open>\<open>get_admin_region\<close>: the second comma-separated part, stripped; empty when
  the name has no comma.\<close>

definition get_admin_region :: "string \<Rightarrow> string" where
  "get_admin_region nm =
     (let parts = map strip (split_on CHR '','' nm)
      in if length parts > 1 then parts ! 1 else [])"

subsection \<open>Shared helpers of the pregrouper and the merger\<close>

text \<open>\<open>list(dict.fromkeys(xs))\<close>: duplicates removed, first occurrences kept in order.\<close>

fun dedup :: "'a list \<Rightarrow> 'a list" where
  "dedup [] = []"
| "dedup (x # xs) = x # dedup (filter (\<lambda>y. y \<noteq> x) xs)"

text \<open>\<open>max(grp, key=population)\<close> keeps the first element that attains the maximum.\<close>

fun max_population_from :: "'a settlement_scheme \<Rightarrow> 'a settlement_scheme list \<Rightarrow> 'a settlement_scheme" where
  "max_population_from best [] = best"
| "max_population_from best (s # ss) =
     max_population_from (if population s > population best then s else best) ss"

definition max_population :: "'a settlement_scheme list \<Rightarrow> py_error + 'a settlement_scheme" where
  "max_population grp = (case grp of [] \<Rightarrow> Inl ValueError | s # ss \<Rightarrow> Inr (max_population_from s ss))"

text \<open>The constituent loop, identical in both functions: each member's own name, then
  its existing constituents if it has the key; duplicates removed afterwards.\<close>

definition own_and_constituents :: "'a settlement_scheme \<Rightarrow> string list" where
  "own_and_constituents s =
     name s # (case constituent_settlements s of None \<Rightarrow> [] | Some cs \<Rightarrow> cs)"

definition collect_constituents :: "'a settlement_scheme list \<Rightarrow> string list" where
  "collect_constituents grp = dedup (concat (map own_and_constituents grp))"

text \<open>\<open>sorted(xs, key=population, reverse=True)\<close>: stable, descending.\<close>

definition sort_by_population_desc :: "'a settlement_scheme list \<Rightarrow> 'a settlement_scheme list" where
  "sort_by_population_desc xs = sort_key (\<lambda>s. - population s) xs"

text \<open>Python's \<open>round\<close> on a float: to the nearest integer, ties to the even one.\<close>

definition py_round :: "real \<Rightarrow> int" where
  "py_round x =
     (let f = \<lfloor>x\<rfloor>; d = x - of_int f
      in if d < 1/2 then f
         else if d > 1/2 then f + 1
         else if even f then f else f + 1)"

subsection \<open>Population pregrouper\<close>

text \<open>The \<open>defaultdict(list)\<close> keyed by region, in insertion order.\<close>

fun add_to_region :: "string \<Rightarrow> 'a \<Rightarrow> (string \<times> 'a list) list \<Rightarrow> (string \<times> 'a list) list" where
  "add_to_region r s [] = [(r, [s])]"
| "add_to_region r s ((k, v) # kvs) =
     (if k = r then (k, v @ [s]) # kvs else (k, v) # add_to_region r s kvs)"

definition admin_regions_of :: "settlement list \<Rightarrow> (string \<times> settlement list) list" where
  "admin_regions_of remaining =
     foldl (\<lambda>d s. add_to_region (get_admin_region (name s)) s d) [] remaining"

text \<open>The inner \<open>while i < len(region_settlements)\<close> loop (\<open>i\<close> stays 0): pop the front
  into the group until the running total reaches the floor or the region is exhausted.\<close>

fun accumulate_group ::
  "int \<Rightarrow> settlement list \<Rightarrow> int \<Rightarrow> settlement list \<Rightarrow> settlement list \<times> int \<times> settlement list" where
  "accumulate_group min_population grp total_pop [] = (grp, total_pop, [])"
| "accumulate_group min_population grp total_pop (s # region_settlements) =
     (if total_pop \<ge> min_population then (grp, total_pop, s # region_settlements)
      else accumulate_group min_population (grp @ [s]) (total_pop + population s)
             region_settlements)"

definition merge_group :: "settlement list \<Rightarrow> int \<Rightarrow> settlement \<Rightarrow> settlement" where
  "merge_group grp total_pop current =
     (if length grp > 1 then
        \<lparr> name = name (max_population_from (hd grp) (tl grp)),
          population = total_pop,
          constituent_settlements = Some (collect_constituents grp) \<rparr>
      else current)"

text \<open>The outer \<open>while region_settlements\<close> loop of one region.\<close>

function process_region :: "int \<Rightarrow> settlement list \<Rightarrow> settlement list \<Rightarrow> settlement list" where
  "process_region min_population [] result = result"
| "process_region min_population (current # region_settlements) result =
     (case accumulate_group min_population [current] (population current) region_settlements of
        (grp, total_pop, rest) \<Rightarrow>
          process_region min_population rest (result @ [merge_group grp total_pop current]))"
  by pat_completeness auto
termination
proof (relation "measure (\<lambda>(m, rs, res). length rs)")
  fix min_population :: int and current region_settlements x y grp total_pop rest
  assume "(grp, y) = accumulate_group min_population [current] (population current) region_settlements"
    and "(total_pop, rest) = y"
  then have "rest = snd (snd (accumulate_group min_population [current] (population current) region_settlements))"
    by (metis snd_conv)
  moreover have "length (snd (snd (accumulate_group min_population g t rs))) \<le> length rs" for g t rs
    by (induction rs arbitrary: g t) (auto simp: le_SucI)
  ultimately have "length rest \<le> length region_settlements"
    by simp
  then show "((min_population, rest, x @ [merge_group grp total_pop current]),
              (min_population, current # region_settlements, x)) \<in> measure (\<lambda>(m, rs, res). length rs)"
    by simp
qed simp

text \<open>The redistribution step after the regions are processed.\<close>

definition redistribute :: "int \<Rightarrow> settlement list \<Rightarrow> py_error + settlement list" where
  "redistribute population_difference result =
     (if \<bar>population_difference\<bar> > 0 then
        (let total_result_population = sum_population result
         in if result = [] then Inr result
            else if total_result_population = 0 then Inl ZeroDivisionError
            else Inr (map (\<lambda>s. s\<lparr>population := population s +
                       py_round (of_int population_difference *
                         (of_int (population s) / of_int total_result_population))\<rparr>) result))
      else Inr result)"

definition process_regions :: "int \<Rightarrow> settlement list \<Rightarrow> (string \<times> settlement list) list \<Rightarrow> settlement list" where
  "process_regions min_population result admin_regions =
     foldl (\<lambda>res (admin_region, region_settlements).
              process_region min_population (sort_by_population_desc region_settlements) res)
           result admin_regions"

definition pregroup_small_settlements ::
  "settlement list \<Rightarrow> int \<Rightarrow> nat \<Rightarrow> py_error + settlement list" where
  "pregroup_small_settlements settlements min_population max_settlements =
     (let settlements_by_pop = sort_by_population_desc settlements;
          total_initial_population = sum_population settlements
      in if length settlements \<le> max_settlements then Inr settlements
         else
           (let result = filter (\<lambda>s. population s \<ge> min_population) settlements_by_pop;
                remaining = filter (\<lambda>s. population s < min_population) settlements_by_pop;
                admin_regions = admin_regions_of remaining;
                result = process_regions min_population result admin_regions;
                total_final_population = sum_population result;
                population_difference = total_initial_population - total_final_population
            in redistribute population_difference result))"

subsection \<open>Spatial clusterer\<close>

text \<open>\<open>calculate_distance\<close>: the haversine formula on \<open>(lat, lon)\<close> pairs in degrees.\<close>

definition radians :: "real \<Rightarrow> real" where
  "radians x = x * pi / 180"

definition calculate_distance :: "real \<times> real \<Rightarrow> real \<times> real \<Rightarrow> real" where
  "calculate_distance point1 point2 =
     (let lat1 = radians (fst point1); lon1 = radians (snd point1);
          lat2 = radians (fst point2); lon2 = radians (snd point2);
          dlat = lat2 - lat1;
          dlon = lon2 - lon1;
          a = (sin (dlat / 2))\<^sup>2 + cos lat1 * cos lat2 * (sin (dlon / 2))\<^sup>2;
          c = 2 * arcsin (sqrt a);
          r = 6371
      in c * r)"

text \<open>
  The inner \<open>for j\<close> loop of \<open>group_settlements\<close>. The source marks indices of the
  sorted list in the set \<open>used\<close>; when the outer loop reaches index \<open>i\<close> every smaller
  index is already in \<open>used\<close>, so the inner loop only ever examines the not-yet-used
  entries after \<open>i\<close>, in order. The model passes that list of unused entries along and
  returns the finished group together with the entries left unused.
\<close>

fun scan_candidates ::
  "real \<Rightarrow> string \<Rightarrow> geo_settlement list \<Rightarrow> geo_settlement list
     \<Rightarrow> geo_settlement list \<times> geo_settlement list" where
  "scan_candidates max_distance admin_region1 grp [] = (grp, [])"
| "scan_candidates max_distance admin_region1 grp (settlement2 # rest) =
     (if admin_region1 \<noteq> get_admin_region (name settlement2) then
        (case scan_candidates max_distance admin_region1 grp rest of
           (g, unused) \<Rightarrow> (g, settlement2 # unused))
      else if list_ex (\<lambda>s. calculate_distance (lat s, lon s) (lat settlement2, lon settlement2)
                            \<le> max_distance) grp then
        scan_candidates max_distance admin_region1 (grp @ [settlement2]) rest
      else
        (case scan_candidates max_distance admin_region1 grp rest of
           (g, unused) \<Rightarrow> (g, settlement2 # unused)))"

function group_loop :: "real \<Rightarrow> geo_settlement list \<Rightarrow> geo_settlement list list" where
  "group_loop max_distance [] = []"
| "group_loop max_distance (settlement1 # rest) =
     (case scan_candidates max_distance (get_admin_region (name settlement1)) [settlement1] rest of
        (grp, unused) \<Rightarrow> grp # group_loop max_distance unused)"
  by pat_completeness auto
termination
proof (relation "measure (\<lambda>(d, xs). length xs)")
  fix max_distance :: real and settlement1 rest grp unused
  assume "(grp, unused) =
            scan_candidates max_distance (get_admin_region (name settlement1)) [settlement1] rest"
  then have "unused = snd (scan_candidates max_distance (get_admin_region (name settlement1)) [settlement1] rest)"
    by (metis snd_conv)
  moreover have "length (snd (scan_candidates max_distance r g cs)) \<le> length cs" for r g cs
  proof (induction cs arbitrary: g)
    case Nil
    show ?case by simp
  next
    case (Cons c cs)
    show ?case
      using Cons [of g] Cons [of "g @ [c]"] by (auto simp: le_SucI split: prod.splits)
  qed
  ultimately have "length unused \<le> length rest"
    by simp
  then show "((max_distance, unused), (max_distance, settlement1 # rest))
               \<in> measure (\<lambda>(d, xs). length xs)"
    by simp
qed simp

definition group_settlements :: "geo_settlement list \<Rightarrow> real \<Rightarrow> geo_settlement list list" where
  "group_settlements settlements max_distance =
     group_loop max_distance (sort_by_population_desc settlements)"

subsection \<open>Settlement merger\<close>

text \<open>Both quotients divide by \<open>total_pop\<close>; Python raises \<open>ZeroDivisionError\<close> when
  it is zero, which includes the empty group.\<close>

definition process_settlement_group :: "geo_settlement list \<Rightarrow> py_error + geo_settlement" where
  "process_settlement_group grp =
     (let total_pop = sum_population grp
      in if total_pop = 0 then Inl ZeroDivisionError
         else
           (let weighted_lat = (\<Sum>s\<leftarrow>grp. lat s * of_int (population s)) / of_int total_pop;
                weighted_lon = (\<Sum>s\<leftarrow>grp. lon s * of_int (population s)) / of_int total_pop
            in case max_population grp of
                 Inl e \<Rightarrow> Inl e
               | Inr main_settlement \<Rightarrow>
                   Inr \<lparr> name = name main_settlement,
                         population = total_pop,
                         constituent_settlements = Some (collect_constituents grp),
                         lat = weighted_lat,
                         lon = weighted_lon \<rparr>))"

subsection \<open>Geo-transform provider (ireland\_bounds.py, transform\_settlements.py)\<close>

definition min_lat :: real where "min_lat = 514 / 10"
definition max_lat :: real where "max_lat = 554 / 10"
definition min_lon :: real where "min_lon = - (106 / 10)"
definition max_lon :: real where "max_lon = - (59 / 10)"

record grid_transformation =
  origin :: "real \<times> real"
  scale :: "real \<times> real"

definition calculate_grid_transformation :: grid_transformation where
  "calculate_grid_transformation =
     (let lon_range = max_lon - min_lon;
          lat_range = max_lat - min_lat;
          scale_x = 50000 / lon_range;
          scale_y = 50000 / lat_range
      in \<lparr> origin = (min_lon, min_lat), scale = (scale_x, scale_y) \<rparr>)"

text \<open>\<open>ireland_bounds.transform_coordinates\<close>, the function \<open>settlements.py\<close> imports;
  its input pairs are \<open>(lon, lat)\<close>.\<close>

definition transform_coordinates ::
  "(real \<times> real) list \<Rightarrow> grid_transformation \<Rightarrow> (real \<times> real) list" where
  "transform_coordinates coords transform =
     map (\<lambda>(lon, lat). ((lon - fst (origin transform)) * fst (scale transform),
                         (lat - snd (origin transform)) * snd (scale transform))) coords"

text \<open>\<open>transform_settlements.transform_coordinates(lat, lon)\<close>, a different function of
  the same name in the post-processing script.\<close>

definition rust_transform_coordinates :: "real \<Rightarrow> real \<Rightarrow> real \<times> real" where
  "rust_transform_coordinates la lo =
     (let lat_range = max_lat - min_lat;
          lon_range = max_lon - min_lon;
          lat_percent = (la - min_lat) / lat_range;
          lon_percent = (lo - min_lon) / lon_range;
          x = lon_percent * 100000;
          y = lat_percent * 100000
      in (x, y))"

definition in_ireland_bbox :: "real \<Rightarrow> real \<Rightarrow> bool" where
  "in_ireland_bbox la lo = (min_lat \<le> la \<and> la \<le> max_lat \<and> min_lon \<le> lo \<and> lo \<le> max_lon)"

subsection \<open>Checkpointed geocode resolver\<close>

text \<open>
  A location is the dict \<open>{'lat', 'lon'}\<close>; the \<open>locations\<close> checkpoint is a dict from
  names to locations. The geocoding service (\<open>fetch_google_maps_location\<close>) is a
  parameter: a function from a name to a location or \<open>None\<close>. The state records the
  growing \<open>results\<close> dict, the names sent to the service in order, and the content of
  the checkpoint file.
\<close>

type_synonym location = "real \<times> real"
type_synonym locations = "string \<rightharpoonup> location"

record resolver_state =
  results :: locations
  requests :: "string list"
  saved :: "locations option"

definition resolve_name :: "(string \<Rightarrow> location option) \<Rightarrow> resolver_state \<Rightarrow> string \<Rightarrow> resolver_state" where
  "resolve_name geocode st nm =
     (case geocode nm of
        Some location \<Rightarrow> st\<lparr> results := (results st)(nm \<mapsto> location), requests := requests st @ [nm] \<rparr>
      | None \<Rightarrow> st\<lparr> requests := requests st @ [nm] \<rparr>)"

definition process_batch :: "(string \<Rightarrow> location option) \<Rightarrow> resolver_state \<Rightarrow> string list \<Rightarrow> resolver_state" where
  "process_batch geocode st batch =
     (let st' = foldl (resolve_name geocode) st batch
      in st'\<lparr> saved := Some (results st') \<rparr>)"

function process_batches ::
  "(string \<Rightarrow> location option) \<Rightarrow> nat \<Rightarrow> string list \<Rightarrow> resolver_state \<Rightarrow> resolver_state" where
  "process_batches geocode batch_size names_to_process st =
     (if names_to_process = [] \<or> batch_size = 0 then st
      else process_batches geocode batch_size (drop batch_size names_to_process)
             (process_batch geocode st (take batch_size names_to_process)))"
  by pat_completeness auto
termination
  by (relation "measure (\<lambda>(g, b, ns, st). length ns)") auto

text \<open>\<open>fetch_locations_batch\<close>: the environment variable and the loaded checkpoint are
  parameters. A zero \<open>batch_size\<close> divides by zero when the batches are counted.\<close>

definition fetch_locations_batch ::
  "string option \<Rightarrow> string list \<Rightarrow> nat \<Rightarrow> locations option \<Rightarrow> (string \<Rightarrow> location option)
     \<Rightarrow> py_error + resolver_state" where
  "fetch_locations_batch api_key names batch_size checkpoint geocode =
     (if api_key = None \<or> api_key = Some [] then Inl ValueError
      else
        (let results0 = (case checkpoint of None \<Rightarrow> Map.empty | Some r \<Rightarrow> r);
             names_to_process = filter (\<lambda>nm. results0 nm = None) names
         in if names_to_process = [] then
              Inr \<lparr> results = results0, requests = [], saved = checkpoint \<rparr>
            else if batch_size = 0 then Inl ZeroDivisionError
            else Inr (process_batches geocode batch_size names_to_process
                        \<lparr> results = results0, requests = [], saved = checkpoint \<rparr>)))"

subsection \<open>Pipeline orchestrator\<close>

record metadata =
  total_population :: int
  total_settlements :: nat
  total_ireland_population :: int
  grid_transform :: grid_transformation
  unmatched_settlements :: "string list"
  failure_rate :: real

record final_data =
  settlements :: "final_settlement list"
  metadata :: metadata

text \<open>Stage 4: settlements whose name has a location get coordinates and a constituent
  list (their own name when they had none); the names of the others are collected.\<close>

definition attach_coordinates ::
  "settlement list \<Rightarrow> locations \<Rightarrow> geo_settlement list \<times> string list" where
  "attach_coordinates grouped_cso_settlements locs =
     (concat (map (\<lambda>s. case locs (name s) of
                          None \<Rightarrow> []
                        | Some coords \<Rightarrow>
                            [\<lparr> name = name s, population = population s,
                               constituent_settlements =
                                 Some (case constituent_settlements s of None \<Rightarrow> [name s] | Some cs \<Rightarrow> cs),
                               lat = fst coords, lon = snd coords \<rparr>])
                   grouped_cso_settlements),
      map name (filter (\<lambda>s. locs (name s) = None) grouped_cso_settlements))"

text \<open>\<open>len(not_found) / len(settlement_names)\<close>: Python raises when the list of names
  is empty.\<close>

definition failure_rate_of :: "string list \<Rightarrow> string list \<Rightarrow> py_error + real" where
  "failure_rate_of not_found settlement_names =
     (if settlement_names = [] then Inl ZeroDivisionError
      else Inr (real (length not_found) / real (length settlement_names)))"

text \<open>The gate after stage 4: \<open>if not_found: ... if failure_rate > 0.1: raise SystemExit(1)\<close>.
  It tells whether the run ends here with \<open>SystemExit(1)\<close>; an exception in the
  division would end it the same way, through \<open>except Exception\<close>.\<close>

definition high_failure_rate :: "string list \<Rightarrow> string list \<Rightarrow> bool" where
  "high_failure_rate not_found settlement_names =
     (not_found \<noteq> [] \<and>
      (case failure_rate_of not_found settlement_names of
         Inl e \<Rightarrow> True
       | Inr rate \<Rightarrow> rate > 1 / 10))"

fun collect_results :: "('e + 'a) list \<Rightarrow> 'e + 'a list" where
  "collect_results [] = Inr []"
| "collect_results (r # rs) =
     (case r of
        Inl e \<Rightarrow> Inl e
      | Inr x \<Rightarrow> (case collect_results rs of Inl e \<Rightarrow> Inl e | Inr xs \<Rightarrow> Inr (x # xs)))"

definition add_grid_coordinates :: "grid_transformation \<Rightarrow> geo_settlement \<Rightarrow> final_settlement" where
  "add_grid_coordinates transform s =
     (let grid_coords = hd (transform_coordinates [(lon s, lat s)] transform)
      in \<lparr> name = name s, population = population s,
           constituent_settlements = constituent_settlements s,
           lat = lat s, lon = lon s,
           grid_x = fst grid_coords, grid_y = snd grid_coords \<rparr>)"

text \<open>Append mode: the populations of the existing settlements are reduced by their
  rounded proportional shares of the excess over \<open>total_ireland_population\<close>.\<close>

definition undistribute ::
  "final_settlement list \<Rightarrow> int \<Rightarrow> int \<Rightarrow> py_error + final_settlement list" where
  "undistribute existing original_total distributed_population =
     (if distributed_population > 0 then
        (if existing = [] then Inr existing
         else if original_total = 0 then Inl ZeroDivisionError
         else Inr (map (\<lambda>s. s\<lparr>population := population s -
                      py_round (of_int distributed_population *
                        (of_int (population s) / of_int original_total))\<rparr>) existing))
      else Inr existing)"

definition combine_with_existing ::
  "final_data \<Rightarrow> final_settlement list \<Rightarrow> grid_transformation \<Rightarrow> string list \<Rightarrow> string list
     \<Rightarrow> py_error + final_data" where
  "combine_with_existing existing_data final_settlements transform not_found settlement_names =
     (let original_total = sum_population (settlements existing_data);
          new_total = sum_population final_settlements;
          total_with_new = original_total + new_total;
          distributed_population =
            total_with_new - total_ireland_population (metadata existing_data)
      in case undistribute (settlements existing_data) original_total distributed_population of
           Inl e \<Rightarrow> Inl e
         | Inr existing \<Rightarrow>
             (case failure_rate_of not_found settlement_names of
                Inl e \<Rightarrow> Inl e
              | Inr rate \<Rightarrow>
                  Inr \<lparr> settlements = existing @ final_settlements,
                        metadata =
                          \<lparr> total_population =
                              sum_population existing + sum_population final_settlements,
                            total_settlements = length existing + length final_settlements,
                            total_ireland_population =
                              total_ireland_population (metadata existing_data),
                            grid_transform = transform,
                            unmatched_settlements =
                              unmatched_settlements (metadata existing_data) @ not_found,
                            failure_rate = rate \<rparr> \<rparr>))"

definition fresh_final_data ::
  "final_settlement list \<Rightarrow> int \<Rightarrow> grid_transformation \<Rightarrow> string list \<Rightarrow> string list
     \<Rightarrow> py_error + final_data" where
  "fresh_final_data final_settlements total_ireland transform not_found settlement_names =
     (case failure_rate_of not_found settlement_names of
        Inl e \<Rightarrow> Inl e
      | Inr rate \<Rightarrow>
          Inr \<lparr> settlements = final_settlements,
                metadata =
                  \<lparr> total_population = sum_population final_settlements,
                    total_settlements = length final_settlements,
                    total_ireland_population = total_ireland,
                    grid_transform = transform,
                    unmatched_settlements = not_found,
                    failure_rate = rate \<rparr> \<rparr>)"

text \<open>
  The outcome of a run: \<open>SystemExit1\<close> is \<open>raise SystemExit(1)\<close>, reached directly or
  through \<open>except Exception\<close>, after which \<open>clear_checkpoints\<close> is not called;
  \<open>Written fd cleared\<close> is the dataset written to \<open>settlements.json\<close> and whether
  \<open>clear_checkpoints\<close> was called afterwards.
\<close>

datatype outcome = SystemExit1 | Written final_data bool

definition write_and_finish :: "final_data \<Rightarrow> outcome" where
  "write_and_finish fd = Written fd (failure_rate (metadata fd) \<le> 1 / 10)"

text \<open>
  The environment of a run: the command-line flag, the API key variable, the existing
  dataset (\<open>load_existing_settlements\<close>), the input settlements (the \<open>cso_settlements\<close>
  checkpoint or \<open>fetch_cso_settlements\<close>, in append mode \<open>load_missing_settlements\<close>),
  the checkpoints found on disk, and the geocoding service.
\<close>

record run_env =
  append_mode :: bool
  api_key :: "string option"
  existing_data :: "final_data option"
  cso_settlements :: "settlement list"
  ck_grouped_settlements :: "settlement list option"
  ck_locations :: "locations option"
  ck_final_settlements :: "final_data option"
  geocode :: "string \<Rightarrow> location option"

text \<open>Stage 5 and the write, once the gate has been passed.\<close>

definition stage5 ::
  "run_env \<Rightarrow> final_data option \<Rightarrow> int \<Rightarrow> geo_settlement list \<Rightarrow> string list \<Rightarrow> string list \<Rightarrow> outcome" where
  "stage5 env ck_final total_ireland matched not_found settlement_names =
     (case ck_final of
        Some final_data \<Rightarrow> write_and_finish final_data
      | None \<Rightarrow>
          (case collect_results (map process_settlement_group (group_settlements matched 30)) of
             Inl e \<Rightarrow> SystemExit1
           | Inr merged \<Rightarrow>
               (let transform = calculate_grid_transformation;
                    final_settlements = map (add_grid_coordinates transform) merged
                in if append_mode env then
                     (case existing_data env of
                        None \<Rightarrow> SystemExit1
                      | Some existing \<Rightarrow>
                          (case combine_with_existing existing final_settlements transform
                                  not_found settlement_names of
                             Inl e \<Rightarrow> SystemExit1
                           | Inr final_data \<Rightarrow> write_and_finish final_data))
                   else
                     (case fresh_final_data final_settlements total_ireland transform
                             not_found settlement_names of
                        Inl e \<Rightarrow> SystemExit1
                      | Inr final_data \<Rightarrow> write_and_finish final_data))))"

definition main :: "run_env \<Rightarrow> outcome" where
  "main env =
     (if api_key env = None \<or> api_key env = Some [] then SystemExit1
      else if append_mode env \<and> existing_data env = None then SystemExit1
      else
        (let ck_grouped = (if append_mode env then None else ck_grouped_settlements env);
             ck_locs = (if append_mode env then None else ck_locations env);
             ck_final = (if append_mode env then None else ck_final_settlements env);
             total_ireland = sum_population (cso_settlements env)
         in case (case ck_grouped of
                    Some g \<Rightarrow> Inr g
                  | None \<Rightarrow> pregroup_small_settlements (cso_settlements env) 1000 1000) of
              Inl e \<Rightarrow> SystemExit1
            | Inr grouped_cso_settlements \<Rightarrow>
                (let settlement_names = map name grouped_cso_settlements
                 in case fetch_locations_batch (api_key env) settlement_names 50 ck_locs (geocode env) of
                      Inl e \<Rightarrow> SystemExit1
                    | Inr st \<Rightarrow>
                        (case attach_coordinates grouped_cso_settlements (results st) of
                           (matched, not_found) \<Rightarrow>
                             if high_failure_rate not_found settlement_names then SystemExit1
                             else if matched = [] then SystemExit1
                             else stage5 env ck_final total_ireland matched not_found
                                    settlement_names))))"


subsection \<open>Notions used to state the properties\<close>

text \<open>The constituents a settlement carries (none when the key is absent), and region
  purity: every constituent name has the administrative region of the settlement's name.\<close>

definition constituents_of :: "'a settlement_scheme \<Rightarrow> string list" where
  "constituents_of s = (case constituent_settlements s of None \<Rightarrow> [] | Some cs \<Rightarrow> cs)"

definition region_pure :: "'a settlement_scheme \<Rightarrow> bool" where
  "region_pure s =
     list_all (\<lambda>c. get_admin_region c = get_admin_region (name s)) (constituents_of s)"

text \<open>The spec's wording of the administrative region: the substring after the first
  comma of the name.\<close>

definition spec_region_after_first_comma :: "string \<Rightarrow> string" where
  "spec_region_after_first_comma nm = drop 1 (dropWhile (\<lambda>c. c \<noteq> CHR '','') nm)"

text \<open>The spec's wording of the merged constituent list: every member's own constituents,
  the member's own name only when it has none, duplicates removed keeping first
  occurrences.\<close>

definition spec_member_constituents :: "'a settlement_scheme \<Rightarrow> string list" where
  "spec_member_constituents s =
     (case constituent_settlements s of
        None \<Rightarrow> [name s]
      | Some cs \<Rightarrow> if cs = [] then [name s] else cs)"

definition spec_merged_constituents :: "'a settlement_scheme list \<Rightarrow> string list" where
  "spec_merged_constituents grp = dedup (concat (map spec_member_constituents grp))"

section \<open>Properties\<close>

subsection \<open>Population sums\<close>

lemma sum_population_append: "sum_population (xs @ ys) = sum_population xs + sum_population ys"
  by (simp add: sum_population_def)

lemma sum_population_mset: "mset xs = mset ys \<Longrightarrow> sum_population xs = sum_population ys"
  unfolding sum_population_def by (metis mset_map sum_mset_sum_list)

lemma sum_population_sort: "sum_population (sort_by_population_desc xs) = sum_population xs"
  by (rule sum_population_mset) (simp add: sort_by_population_desc_def)

lemma sum_population_filter_split:
  "sum_population (filter P xs) + sum_population (filter (\<lambda>x. \<not> P x) xs) = sum_population xs"
  by (induction xs) (auto simp: sum_population_def)

subsection \<open>One region of the pregrouper\<close>

lemma accumulate_group_length:
  "length (snd (snd (accumulate_group m g t rs))) \<le> length rs"
  by (induction rs arbitrary: g t) (auto simp: le_SucI)

lemma accumulate_group_split:
  "accumulate_group m g t rs = (g', t', rs') \<Longrightarrow>
     g' @ rs' = g @ rs \<and> t' - sum_population g' = t - sum_population g \<and> length g \<le> length g'"
proof (induction rs arbitrary: g t)
  case Nil
  then show ?case by simp
next
  case (Cons s rs)
  show ?case
  proof (cases "t \<ge> m")
    case True
    with Cons.prems show ?thesis by simp
  next
    case False
    with Cons.prems have "accumulate_group m (g @ [s]) (t + population s) rs = (g', t', rs')"
      by simp
    from Cons.IH [OF this] show ?thesis by (simp add: sum_population_def)
  qed
qed

lemma accumulate_group_floor:
  "accumulate_group m g t rs = (g', t', rs') \<Longrightarrow> rs' \<noteq> [] \<Longrightarrow> t' \<ge> m"
  by (induction rs arbitrary: g t) (auto split: if_splits)

lemma merge_group_population:
  "length g \<ge> 1 \<Longrightarrow> hd g = current \<Longrightarrow> t = sum_population g \<Longrightarrow>
     population (merge_group g t current) = sum_population g"
  by (cases g) (auto simp: merge_group_def sum_population_def)

lemma process_region_sum:
  "sum_population (process_region m rs res) = sum_population res + sum_population rs"
proof (induction m rs res rule: process_region.induct)
  case (1 m res)
  then show ?case by (simp add: sum_population_def)
next
  case (2 m current rs res)
  obtain g t rest where acc: "accumulate_group m [current] (population current) rs = (g, t, rest)"
    by (metis prod_cases3)
  from accumulate_group_split [OF acc]
  have split: "g @ rest = current # rs"
    and tot: "t - sum_population g = population current - sum_population [current]"
    and len: "1 \<le> length g" by simp_all
  have t: "t = sum_population g" using tot by (simp add: sum_population_def)
  have hd: "hd g = current" using split len by (cases g) auto
  have "sum_population (process_region m (current # rs) res)
        = sum_population (res @ [merge_group g t current]) + sum_population rest"
    using acc "2.IH" [OF acc [symmetric] refl] by simp
  also have "\<dots> = sum_population res + sum_population g + sum_population rest"
    using merge_group_population [OF len hd t] by (simp add: sum_population_def)
  also have "\<dots> = sum_population res + sum_population (g @ rest)"
    by (simp add: sum_population_append)
  finally show ?case by (simp add: split)
qed

lemma process_region_length:
  "length (process_region m rs res) \<le> length res + length rs"
proof (induction m rs res rule: process_region.induct)
  case (1 m res)
  then show ?case by simp
next
  case (2 m current rs res)
  obtain g t rest where acc: "accumulate_group m [current] (population current) rs = (g, t, rest)"
    by (metis prod_cases3)
  have "length rest \<le> length rs"
    using accumulate_group_length [of m "[current]" "population current" rs] acc by simp
  moreover have "length (process_region m (current # rs) res)
                   \<le> length (res @ [merge_group g t current]) + length rest"
    using acc "2.IH" [OF acc [symmetric] refl] by simp
  ultimately show ?case by simp
qed


subsection \<open>The region dictionary and the whole pregrouper\<close>

lemma add_to_region_mset:
  "mset (concat (map snd (add_to_region r s d))) = add_mset s (mset (concat (map snd d)))"
  by (induction d) auto

lemma add_to_region_keys:
  "map fst (add_to_region r s d) = (if r \<in> fst ` set d then map fst d else map fst d @ [r])"
  by (induction d) force+

lemma add_to_region_distinct:
  "distinct (map fst d) \<Longrightarrow> distinct (map fst (add_to_region r s d))"
  by (simp add: add_to_region_keys)

lemma add_to_region_members:
  "(k, v) \<in> set (add_to_region r s d) \<Longrightarrow> x \<in> set v \<Longrightarrow>
     (x = s \<and> k = r) \<or> (\<exists>v'. (k, v') \<in> set d \<and> x \<in> set v')"
proof (induction d)
  case Nil
  then show ?case by simp
next
  case (Cons a d)
  obtain k' v' where a: "a = (k', v')" by (cases a)
  show ?case
  proof (cases "k' = r")
    case True
    with Cons.prems a show ?thesis by fastforce
  next
    case False
    with Cons.prems a have "(k, v) = (k', v') \<or> (k, v) \<in> set (add_to_region r s d)" by simp
    then show ?thesis
    proof
      assume "(k, v) = (k', v')"
      with Cons.prems a show ?thesis by fastforce
    next
      assume "(k, v) \<in> set (add_to_region r s d)"
      from Cons.IH [OF this Cons.prems(2)] show ?thesis by fastforce
    qed
  qed
qed

lemma foldl_add_to_region:
  "mset (concat (map snd (foldl (\<lambda>d s. add_to_region (f s) s d) d0 xs)))
     = mset xs + mset (concat (map snd d0))"
  by (induction xs arbitrary: d0) (auto simp: add_to_region_mset)

lemma foldl_add_to_region_distinct:
  "distinct (map fst d0) \<Longrightarrow> distinct (map fst (foldl (\<lambda>d s. add_to_region (f s) s d) d0 xs))"
  by (induction xs arbitrary: d0) (auto simp: add_to_region_distinct)

lemma foldl_add_to_region_members:
  "(k, v) \<in> set (foldl (\<lambda>d s. add_to_region (f s) s d) d0 xs) \<Longrightarrow> x \<in> set v \<Longrightarrow>
     (\<forall>k v x. (k, v) \<in> set d0 \<longrightarrow> x \<in> set v \<longrightarrow> f x = k) \<Longrightarrow> f x = k"
proof (induction xs arbitrary: d0)
  case Nil then show ?case by auto
next
  case (Cons a xs)
  have "\<forall>k v x. (k, v) \<in> set (add_to_region (f a) a d0) \<longrightarrow> x \<in> set v \<longrightarrow> f x = k"
    using Cons.prems(3) add_to_region_members by fastforce
  with Cons.IH[of "add_to_region (f a) a d0"] Cons.prems(1,2) show ?case by simp
qed

lemma admin_regions_of_mset: "mset (concat (map snd (admin_regions_of xs))) = mset xs"
  by (simp add: admin_regions_of_def foldl_add_to_region)

lemma admin_regions_of_distinct: "distinct (map fst (admin_regions_of xs))"
  by (simp add: admin_regions_of_def foldl_add_to_region_distinct)

lemma admin_regions_of_members:
  "(k, v) \<in> set (admin_regions_of xs) \<Longrightarrow> x \<in> set v \<Longrightarrow> get_admin_region (name x) = k"
  unfolding admin_regions_of_def
  by (rule foldl_add_to_region_members[where f = "\<lambda>s. get_admin_region (name s)" and ?d0.0 = "[]"]) auto

lemma process_regions_sum:
  "sum_population (process_regions m res regs) = sum_population res + sum_population (concat (map snd regs))"
proof (induction regs arbitrary: res)
  case Nil then show ?case by (simp add: process_regions_def sum_population_def)
next
  case (Cons a regs)
  obtain r rs where a: "a = (r, rs)" by (cases a)
  have "process_regions m res (a # regs) = process_regions m (process_region m (sort_by_population_desc rs) res) regs"
    by (simp add: process_regions_def a)
  then show ?case using Cons.IH[of "process_region m (sort_by_population_desc rs) res"]
    by (simp add: a process_region_sum sum_population_sort sum_population_append)
qed

lemma process_regions_length:
  "length (process_regions m res regs) \<le> length res + length (concat (map snd regs))"
proof (induction regs arbitrary: res)
  case Nil then show ?case by (simp add: process_regions_def)
next
  case (Cons a regs)
  obtain r rs where a: "a = (r, rs)" by (cases a)
  have e: "process_regions m res (a # regs) = process_regions m (process_region m (sort_by_population_desc rs) res) regs"
    by (simp add: process_regions_def a)
  have "length (process_region m (sort_by_population_desc rs) res) \<le> length res + length rs"
    using process_region_length[of m "sort_by_population_desc rs" res] by (simp add: sort_by_population_desc_def)
  moreover have "length (concat (map snd (a # regs))) = length rs + length (concat (map snd regs))"
    by (simp add: a)
  ultimately show ?case using Cons.IH[of "process_region m (sort_by_population_desc rs) res"]
    unfolding e by linarith
qed

lemma pregroup_regions_sum:
  "sum_population
     (process_regions m (filter (\<lambda>s. population s \<ge> m) ys)
        (admin_regions_of (filter (\<lambda>s. population s < m) ys))) = sum_population ys"
proof -
  have "sum_population (concat (map snd (admin_regions_of (filter (\<lambda>s. population s < m) ys))))
          = sum_population (filter (\<lambda>s. population s < m) ys)"
    by (rule sum_population_mset) (rule admin_regions_of_mset)
  moreover have "(\<lambda>s::settlement. population s < m) = (\<lambda>s. \<not> population s \<ge> m)" by auto
  ultimately show ?thesis
    using sum_population_filter_split[of "\<lambda>s. population s \<ge> m" ys]
    by (simp add: process_regions_sum)
qed

lemma pregroup_result:
  "pregroup_small_settlements xs m n =
     Inr (if length xs \<le> n then xs
          else process_regions m (filter (\<lambda>s. population s \<ge> m) (sort_by_population_desc xs))
                 (admin_regions_of (filter (\<lambda>s. population s < m) (sort_by_population_desc xs))))"
  by (simp add: pregroup_small_settlements_def Let_def pregroup_regions_sum sum_population_sort redistribute_def)

lemma pregroup_conserves:
  "\<exists>out. pregroup_small_settlements xs m n = Inr out \<and> sum_population out = sum_population xs"
  by (simp add: pregroup_result pregroup_regions_sum sum_population_sort)

lemma pregroup_length:
  "pregroup_small_settlements xs m n = Inr out \<Longrightarrow> length out \<le> length xs"
proof -
  assume a: "pregroup_small_settlements xs m n = Inr out"
  let ?ys = "sort_by_population_desc xs"
  have "length (concat (map snd (admin_regions_of (filter (\<lambda>s. population s < m) ?ys)))) = length (filter (\<lambda>s. population s < m) ?ys)"
    using admin_regions_of_mset[of "filter (\<lambda>s. population s < m) ?ys"] by (metis size_mset)
  moreover have "length (filter (\<lambda>s. population s \<ge> m) ?ys) + length (filter (\<lambda>s. population s < m) ?ys) = length ?ys"
    using sum_length_filter_compl[of "\<lambda>s. population s \<ge> m" ?ys] by (simp add: not_le)
  moreover have "length ?ys = length xs" by (simp add: sort_by_population_desc_def)
  ultimately show ?thesis using a process_regions_length[of m "filter (\<lambda>s. population s \<ge> m) ?ys" "admin_regions_of (filter (\<lambda>s. population s < m) ?ys)"]
    by (auto simp: pregroup_result split: if_splits)
qed


subsection \<open>Names, regions and distances\<close>

lemma split_on_no_sep: "c \<notin> set s \<Longrightarrow> split_on c s = [s]"
  by (induction s) auto

lemma get_admin_region_no_comma: "CHR '','' \<notin> set nm \<Longrightarrow> get_admin_region nm = []"
  by (simp add: get_admin_region_def split_on_no_sep)

lemma calculate_distance_sym: "calculate_distance p q = calculate_distance q p"
proof -
  have "sin ((a - b) / 2) ^ 2 = sin ((b - a) / 2) ^ 2" for a b :: real
  proof -
    have "(a - b) / 2 = - ((b - a) / 2)" by argo
    then show ?thesis by (metis sin_minus power2_minus)
  qed
  then show ?thesis
    by (simp add: calculate_distance_def Let_def mult.commute)
qed

lemma calculate_distance_self: "calculate_distance p p = 0"
  by (simp add: calculate_distance_def Let_def)

subsection \<open>The two-settlement scenario of the pregrouper\<close>

text \<open>
  C5, as stated: with \<open>P_min = 1000\<close> and the default \<open>N_max = 1000\<close> the two
  settlements are merged into one. The code returns the input unchanged, because the
  input count 2 does not exceed \<open>N_max\<close>.
\<close>

theorem pregroup_scenario_default_counterexample:
  "pregroup_small_settlements
     [\<lparr> name = ''A, Region1'', population = 500, constituent_settlements = None \<rparr>,
      \<lparr> name = ''B, Region1'', population = 600, constituent_settlements = None \<rparr>] 1000 1000
   \<noteq> Inr [\<lparr> name = ''B, Region1'', population = 1100,
             constituent_settlements = Some [''B, Region1'', ''A, Region1''] \<rparr>]
   \<and>
   pregroup_small_settlements
     [\<lparr> name = ''A, Region1'', population = 500, constituent_settlements = None \<rparr>,
      \<lparr> name = ''B, Region1'', population = 600, constituent_settlements = None \<rparr>] 1000 1000
   = Inr [\<lparr> name = ''A, Region1'', population = 500, constituent_settlements = None \<rparr>,
          \<lparr> name = ''B, Region1'', population = 600, constituent_settlements = None \<rparr>]"
  by (simp add: pregroup_small_settlements_def Let_def)

lemma region1_A: "get_admin_region ''A, Region1'' = ''Region1''"
  by (simp add: get_admin_region_def strip_def isspace_def)

lemma region1_B: "get_admin_region ''B, Region1'' = ''Region1''"
  by (simp add: get_admin_region_def strip_def isspace_def)

text \<open>
  C5, amended: with \<open>P_min = 1000\<close> and a target count below the input count
  (\<open>N_max = 1\<close> or \<open>N_max = 0\<close>), \<open>pregroup_small_settlements\<close> returns exactly one
  settlement named \<open>B, Region1\<close> with population 1100 and constituents
  \<open>[B, Region1; A, Region1]\<close>.
\<close>

theorem pregroup_scenario_reduced:
  "pregroup_small_settlements
     [\<lparr> name = ''A, Region1'', population = 500, constituent_settlements = None \<rparr>,
      \<lparr> name = ''B, Region1'', population = 600, constituent_settlements = None \<rparr>] 1000 1
   = Inr [\<lparr> name = ''B, Region1'', population = 1100,
             constituent_settlements = Some [''B, Region1'', ''A, Region1''] \<rparr>]
   \<and>
   pregroup_small_settlements
     [\<lparr> name = ''A, Region1'', population = 500, constituent_settlements = None \<rparr>,
      \<lparr> name = ''B, Region1'', population = 600, constituent_settlements = None \<rparr>] 1000 0
   = Inr [\<lparr> name = ''B, Region1'', population = 1100,
             constituent_settlements = Some [''B, Region1'', ''A, Region1''] \<rparr>]"
  by (simp add: pregroup_result sort_by_population_desc_def admin_regions_of_def
        region1_A region1_B process_regions_def merge_group_def collect_constituents_def
        own_and_constituents_def)


subsection \<open>Grid coordinates\<close>

lemma transform_point:
  "transform_coordinates [(lo, la)] calculate_grid_transformation =
     [((lo - min_lon) * (50000 / (max_lon - min_lon)), (la - min_lat) * (50000 / (max_lat - min_lat)))]"
  by (simp add: transform_coordinates_def calculate_grid_transformation_def Let_def)

text \<open>
  C2: for a settlement whose \<open>(lat, lon)\<close> lies inside the Ireland bounding box, the grid
  coordinates the orchestrator attaches (\<open>ireland_bounds.transform_coordinates\<close> with
  \<open>calculate_grid_transformation\<close>) lie in \<open>[0, 100000] \<times> [0, 100000]\<close> and are the
  linear interpolation per axis between the box edges, the lower edge at 0 and the upper
  edge at 50000; \<open>transform_settlements.transform_coordinates\<close> interpolates the same
  way with the upper edge at 100000.
\<close>

theorem grid_coordinates_in_range:
  assumes "in_ireland_bbox (lat s) (lon s)"
  shows "0 \<le> grid_x (add_grid_coordinates calculate_grid_transformation s) \<and>
         grid_x (add_grid_coordinates calculate_grid_transformation s) \<le> 100000 \<and>
         0 \<le> grid_y (add_grid_coordinates calculate_grid_transformation s) \<and>
         grid_y (add_grid_coordinates calculate_grid_transformation s) \<le> 100000 \<and>
         grid_x (add_grid_coordinates calculate_grid_transformation s)
           = (lon s - min_lon) / (max_lon - min_lon) * 50000 \<and>
         grid_y (add_grid_coordinates calculate_grid_transformation s)
           = (lat s - min_lat) / (max_lat - min_lat) * 50000 \<and>
         0 \<le> fst (rust_transform_coordinates (lat s) (lon s)) \<and>
         fst (rust_transform_coordinates (lat s) (lon s)) \<le> 100000 \<and>
         0 \<le> snd (rust_transform_coordinates (lat s) (lon s)) \<and>
         snd (rust_transform_coordinates (lat s) (lon s)) \<le> 100000 \<and>
         rust_transform_coordinates (lat s) (lon s)
           = ((lon s - min_lon) / (max_lon - min_lon) * 100000,
              (lat s - min_lat) / (max_lat - min_lat) * 100000)"
proof -
  have gx: "grid_x (add_grid_coordinates calculate_grid_transformation s)
              = (lon s - min_lon) / (max_lon - min_lon) * 50000"
    by (simp add: add_grid_coordinates_def transform_point Let_def)
  have gy: "grid_y (add_grid_coordinates calculate_grid_transformation s)
              = (lat s - min_lat) / (max_lat - min_lat) * 50000"
    by (simp add: add_grid_coordinates_def transform_point Let_def)
  have rt: "rust_transform_coordinates (lat s) (lon s)
           = ((lon s - min_lon) / (max_lon - min_lon) * 100000,
              (lat s - min_lat) / (max_lat - min_lat) * 100000)"
    by (simp add: rust_transform_coordinates_def Let_def)
  have lonr: "max_lon - min_lon = 47 / 10" and latr: "max_lat - min_lat = 4"
    by (simp_all add: max_lon_def min_lon_def max_lat_def min_lat_def)
  have b: "0 \<le> lon s - min_lon" "lon s - min_lon \<le> 47 / 10" "0 \<le> lat s - min_lat" "lat s - min_lat \<le> 4"
    using assms by (simp_all add: in_ireland_bbox_def max_lon_def min_lon_def max_lat_def min_lat_def)
  show ?thesis
    unfolding gx gy rt lonr latr fst_conv snd_conv using b by simp
qed

theorem grid_coordinates_in_range_witness:
  "in_ireland_bbox 53 (- 8) \<and>
   grid_x (add_grid_coordinates calculate_grid_transformation
     \<lparr> name = ''Athlone, Westmeath'', population = 20000, constituent_settlements = None,
       lat = 53, lon = - 8 \<rparr>) \<le> 100000 \<and>
   0 \<le> grid_y (add_grid_coordinates calculate_grid_transformation
     \<lparr> name = ''Athlone, Westmeath'', population = 20000, constituent_settlements = None,
       lat = 53, lon = - 8 \<rparr>)"
proof -
  have h: "in_ireland_bbox
             (lat \<lparr> name = ''Athlone, Westmeath'', population = 20000, constituent_settlements = None,
                    lat = 53, lon = - 8 \<rparr>)
             (lon \<lparr> name = ''Athlone, Westmeath'', population = 20000, constituent_settlements = None,
                    lat = 53, lon = - 8 \<rparr>)"
    by (simp add: in_ireland_bbox_def max_lon_def min_lon_def max_lat_def min_lat_def)
  show ?thesis
    using grid_coordinates_in_range [OF h] h by simp
qed


subsection \<open>Comma-free names\<close>

lemma sort_two:
  "sort_by_population_desc [a, b] = (if population b \<le> population a then [a, b] else [b, a])"
  by (simp add: sort_by_population_desc_def)

lemma pregroup_pair_same_region:
  fixes x y :: settlement
  assumes "get_admin_region (name x) = get_admin_region (name y)"
    and "population x < m" and "population y < m" and "population y \<le> population x"
  shows "process_regions m [] (admin_regions_of [x, y]) =
           [\<lparr> name = name x, population = population x + population y,
              constituent_settlements = Some (collect_constituents [x, y]) \<rparr>]"
  using assms
  by (simp add: admin_regions_of_def process_regions_def sort_two merge_group_def)

lemma cluster_pair_same_region:
  fixes x y :: geo_settlement
  assumes "get_admin_region (name x) = get_admin_region (name y)"
    and "calculate_distance (lat x, lon x) (lat y, lon y) \<le> D"
  shows "group_loop D [x, y] = [[x, y]]"
  using assms by simp

text \<open>
  C10: a name without a comma has the empty administrative region. Hence two
  settlements with comma-free names are in the same region: when both are below the
  floor and the count exceeds the target, the pregrouper merges them into one settlement
  carrying their summed population, and when they lie within the distance threshold the
  spatial clusterer puts them into one cluster.
\<close>

theorem comma_free_names_share_region:
  fixes a b :: settlement and c d :: geo_settlement
  assumes "CHR '','' \<notin> set (name a)" and "CHR '','' \<notin> set (name b)"
    and "CHR '','' \<notin> set (name c)" and "CHR '','' \<notin> set (name d)"
  shows "get_admin_region (name a) = [] \<and>
         get_admin_region (name a) = get_admin_region (name b) \<and>
         (population a < m \<and> population b < m \<and> n < 2 \<longrightarrow>
            (\<exists>s. pregroup_small_settlements [a, b] m n = Inr [s] \<and>
                 population s = population a + population b \<and>
                 (\<exists>cs. constituent_settlements s = Some cs \<and> name a \<in> set cs \<and> name b \<in> set cs))) \<and>
         (calculate_distance (lat c, lon c) (lat d, lon d) \<le> D \<longrightarrow>
            (\<exists>g. group_settlements [c, d] D = [g] \<and> set g = {c, d}))"
proof -
  have ra: "get_admin_region (name a) = []" and rb: "get_admin_region (name b) = []"
    and rc: "get_admin_region (name c) = []" and rd: "get_admin_region (name d) = []"
    using assms by (simp_all add: get_admin_region_no_comma)
  have set_dedup: "set (dedup xs) = set xs" for xs :: "string list"
    by (induction xs rule: dedup.induct) auto
  have pre: "\<exists>s. pregroup_small_settlements [a, b] m n = Inr [s] \<and>
                 population s = population a + population b \<and>
                 (\<exists>cs. constituent_settlements s = Some cs \<and> name a \<in> set cs \<and> name b \<in> set cs)"
    if lt: "population a < m" "population b < m" "n < 2"
  proof (cases "population b \<le> population a")
    case True
    have "pregroup_small_settlements [a, b] m n = Inr (process_regions m [] (admin_regions_of [a, b]))"
      using lt True by (simp add: pregroup_result sort_two)
    then show ?thesis
      using pregroup_pair_same_region [of a b m] lt True ra rb
      by (simp add: collect_constituents_def own_and_constituents_def set_dedup)
  next
    case False
    have "pregroup_small_settlements [a, b] m n = Inr (process_regions m [] (admin_regions_of [b, a]))"
      using lt False by (simp add: pregroup_result sort_two)
    then show ?thesis
      using pregroup_pair_same_region [of b a m] lt False ra rb
      by (simp add: collect_constituents_def own_and_constituents_def set_dedup)
  qed
  have clu: "\<exists>g. group_settlements [c, d] D = [g] \<and> set g = {c, d}"
    if le: "calculate_distance (lat c, lon c) (lat d, lon d) \<le> D"
  proof (cases "population d \<le> population c")
    case True
    then show ?thesis
      using cluster_pair_same_region [of c d D] le rc rd
      by (simp add: group_settlements_def sort_two)
  next
    case False
    have "calculate_distance (lat d, lon d) (lat c, lon c) \<le> D"
      using le by (simp add: calculate_distance_sym)
    then show ?thesis
      using cluster_pair_same_region [of d c D] False rc rd
      by (auto simp: group_settlements_def sort_two)
  qed
  show ?thesis using ra rb pre clu by simp
qed

theorem comma_free_names_share_region_witness:
  "CHR '','' \<notin> set ''Kilbeg'' \<and> CHR '','' \<notin> set ''Ardmore'' \<and>
   get_admin_region ''Kilbeg'' = get_admin_region ''Ardmore'' \<and>
   (\<exists>s. pregroup_small_settlements
           [\<lparr> name = ''Kilbeg'', population = 300, constituent_settlements = None \<rparr>,
            \<lparr> name = ''Ardmore'', population = 450, constituent_settlements = None \<rparr>] 1000 1 = Inr [s] \<and>
        population s = 750) \<and>
   (\<exists>g. group_settlements
           [\<lparr> name = ''Kilbeg'', population = 300, constituent_settlements = None, lat = 52, lon = - 8 \<rparr>,
            \<lparr> name = ''Ardmore'', population = 450, constituent_settlements = None, lat = 52, lon = - 8 \<rparr>] 30
         = [g] \<and>
        set g = {\<lparr> name = ''Kilbeg'', population = 300, constituent_settlements = None, lat = 52, lon = - 8 \<rparr>,
                 \<lparr> name = ''Ardmore'', population = 450, constituent_settlements = None, lat = 52, lon = - 8 \<rparr>})"
proof -
  let ?a = "\<lparr> name = ''Kilbeg'', population = 300, constituent_settlements = None \<rparr>"
  let ?b = "\<lparr> name = ''Ardmore'', population = 450, constituent_settlements = None \<rparr>"
  let ?c = "\<lparr> name = ''Kilbeg'', population = 300, constituent_settlements = None, lat = 52, lon = - 8 \<rparr>"
  let ?d = "\<lparr> name = ''Ardmore'', population = 450, constituent_settlements = None, lat = 52, lon = - 8 \<rparr>"
  have h: "CHR '','' \<notin> set (name ?a)" "CHR '','' \<notin> set (name ?b)"
          "CHR '','' \<notin> set (name ?c)" "CHR '','' \<notin> set (name ?d)"
    by simp_all
  have dist: "calculate_distance (lat ?c, lon ?c) (lat ?d, lon ?d) \<le> 30"
    by (simp add: calculate_distance_self)
  from comma_free_names_share_region [OF h, of 1000 1 30] dist
  obtain s g where "get_admin_region (name ?a) = get_admin_region (name ?b)"
    and "pregroup_small_settlements [?a, ?b] 1000 1 = Inr [s]" "population s = population ?a + population ?b"
    and g: "group_settlements [?c, ?d] 30 = [g]" "set g = {?c, ?d}"
    by auto
  then show ?thesis by simp
qed


subsection \<open>Geocode resolver\<close>

lemma resolve_names_requests:
  "requests (foldl (resolve_name g) st ns) = requests st @ ns"
  by (induction ns arbitrary: st) (auto simp: resolve_name_def split: option.splits)

lemma resolve_names_saved:
  "saved (foldl (resolve_name g) st ns) = saved st"
  by (induction ns arbitrary: st) (auto simp: resolve_name_def split: option.splits)

lemma resolve_names_results:
  "results (foldl (resolve_name g) st ns) nm =
     (if nm \<in> set ns \<and> g nm \<noteq> None then g nm else results st nm)"
  by (induction ns arbitrary: st) (auto simp: resolve_name_def split: option.splits)

lemma process_batch_requests: "requests (process_batch g st ns) = requests st @ ns"
  by (simp add: process_batch_def Let_def resolve_names_requests)

lemma process_batch_results:
  "results (process_batch g st ns) nm =
     (if nm \<in> set ns \<and> g nm \<noteq> None then g nm else results st nm)"
  by (simp add: process_batch_def Let_def resolve_names_results)

lemma process_batch_saved: "saved (process_batch g st ns) = Some (results (process_batch g st ns))"
  by (simp add: process_batch_def Let_def)

declare process_batches.simps [simp del]

lemma process_batches_step:
  "0 < b \<Longrightarrow> ns \<noteq> [] \<Longrightarrow>
     process_batches g b ns st = process_batches g b (drop b ns) (process_batch g st (take b ns))"
  by (simp add: process_batches.simps [of g b ns st])

lemma process_batches_done: "process_batches g b [] st = st"
  by (simp add: process_batches.simps [of g b "[]" st])

lemma process_batches_requests:
  "0 < b \<Longrightarrow> requests (process_batches g b ns st) = requests st @ ns"
proof (induction g b ns st rule: process_batches.induct)
  case (1 g b ns st)
  show ?case
  proof (cases "ns = []")
    case True
    then show ?thesis by (simp add: process_batches_done)
  next
    case False
    then have "requests (process_batches g b ns st)
                 = requests (process_batch g st (take b ns)) @ drop b ns"
      using 1 by (simp add: process_batches_step)
    then show ?thesis by (simp add: process_batch_requests)
  qed
qed

lemma process_batches_results:
  "0 < b \<Longrightarrow> results (process_batches g b ns st) nm =
     (if nm \<in> set ns \<and> g nm \<noteq> None then g nm else results st nm)"
proof (induction g b ns st rule: process_batches.induct)
  case (1 g b ns st)
  show ?case
  proof (cases "ns = []")
    case True
    then show ?thesis by (simp add: process_batches_done)
  next
    case False
    have mem: "nm \<in> set ns \<longleftrightarrow> nm \<in> set (take b ns) \<or> nm \<in> set (drop b ns)"
      by (metis Un_iff append_take_drop_id set_append)
    have "results (process_batches g b ns st) nm
            = (if nm \<in> set (drop b ns) \<and> g nm \<noteq> None then g nm
               else results (process_batch g st (take b ns)) nm)"
      using 1 False by (simp add: process_batches_step)
    then show ?thesis using mem by (simp add: process_batch_results)
  qed
qed

lemma process_batches_saved:
  "0 < b \<Longrightarrow> ns \<noteq> [] \<Longrightarrow>
     saved (process_batches g b ns st) = Some (results (process_batches g b ns st))"
proof (induction g b ns st rule: process_batches.induct)
  case (1 g b ns st)
  show ?case
  proof (cases "drop b ns = []")
    case True
    have "process_batches g b ns st = process_batches g b [] (process_batch g st (take b ns))"
      using "1.prems" True by (simp add: process_batches_step)
    then show ?thesis by (simp add: process_batch_saved process_batches_done)
  next
    case False
    have "process_batches g b ns st
            = process_batches g b (drop b ns) (process_batch g st (take b ns))"
      using "1.prems" by (simp add: process_batches_step)
    then show ?thesis using "1.IH" "1.prems" False by simp
  qed
qed

text \<open>What a run of the resolver returns, in closed form.\<close>

lemma fetch_locations_batch_run:
  assumes key: "ak = Some k" "k \<noteq> []" and b: "0 < batch_size"
  shows "\<exists>st. fetch_locations_batch ak names batch_size checkpoint g = Inr st \<and>
           requests st = filter (\<lambda>nm. (case checkpoint of None \<Rightarrow> None | Some r \<Rightarrow> r nm) = None) names \<and>
           (\<forall>nm. results st nm =
              (case (case checkpoint of None \<Rightarrow> None | Some r \<Rightarrow> r nm) of
                 Some l \<Rightarrow> Some l
               | None \<Rightarrow> if nm \<in> set names then g nm else None)) \<and>
           (case saved st of None \<Rightarrow> Map.empty | Some r \<Rightarrow> r) = results st"
proof -
  define r0 where "r0 = (case checkpoint of None \<Rightarrow> Map.empty | Some r \<Rightarrow> r)"
  define todo where "todo = filter (\<lambda>nm. r0 nm = None) names"
  define st0 where "st0 = \<lparr> results = r0, requests = [], saved = checkpoint \<rparr>"
  have r0: "(case checkpoint of None \<Rightarrow> None | Some r \<Rightarrow> r nm) = r0 nm" for nm
    by (simp add: r0_def split: option.splits)
  show ?thesis
  proof (cases "todo = []")
    case True
    then have f: "fetch_locations_batch ak names batch_size checkpoint g = Inr st0"
      using key by (simp add: fetch_locations_batch_def Let_def r0_def todo_def st0_def)
    have "\<forall>nm \<in> set names. r0 nm \<noteq> None"
      using True by (simp add: todo_def filter_empty_conv)
    then have "\<forall>nm. r0 nm = (case r0 nm of Some l \<Rightarrow> Some l | None \<Rightarrow> if nm \<in> set names then g nm else None)"
      by (auto split: option.splits)
    moreover have "(case checkpoint of None \<Rightarrow> Map.empty | Some r \<Rightarrow> r) = r0"
      by (simp add: r0_def)
    ultimately show ?thesis
      using f True by (simp add: r0 st0_def todo_def)
  next
    case False
    let ?st = "process_batches g batch_size todo st0"
    have f: "fetch_locations_batch ak names batch_size checkpoint g = Inr ?st"
      using key b False by (simp add: fetch_locations_batch_def Let_def r0_def todo_def st0_def)
    have req: "requests ?st = todo"
      using process_batches_requests [OF b, of g todo st0] by (simp add: st0_def)
    have res: "results ?st nm = (case r0 nm of Some l \<Rightarrow> Some l
                                 | None \<Rightarrow> if nm \<in> set names then g nm else None)" for nm
    proof -
      have "results ?st nm = (if nm \<in> set todo \<and> g nm \<noteq> None then g nm else r0 nm)"
        using process_batches_results [OF b, of g todo st0 nm] by (auto simp: st0_def)
      then show ?thesis
        by (cases "r0 nm"; cases "g nm") (simp_all add: todo_def)
    qed
    have sav: "saved ?st = Some (results ?st)"
      using process_batches_saved [OF b False] .
    show ?thesis
      using f req res sav by (simp add: r0 todo_def)
  qed
qed


text \<open>
  C9, as stated: running the resolver twice over the same name list performs no work
  the second time. A name the service cannot resolve is not stored in the checkpoint,
  so the second run, loading the checkpoint the first run saved, requests it again.
\<close>

theorem resolver_second_run_counterexample:
  "fetch_locations_batch (Some ''key'') [''Nowhere, Mayo''] 50 None Map.empty
     = Inr \<lparr> results = Map.empty, requests = [''Nowhere, Mayo''], saved = Some Map.empty \<rparr> \<and>
   fetch_locations_batch (Some ''key'') [''Nowhere, Mayo''] 50 (Some Map.empty) Map.empty
     = Inr \<lparr> results = Map.empty, requests = [''Nowhere, Mayo''], saved = Some Map.empty \<rparr> \<and>
   requests \<lparr> results = Map.empty, requests = [''Nowhere, Mayo''], saved = Some Map.empty \<rparr> \<noteq> []"
  by (simp add: fetch_locations_batch_def process_batches_step process_batches_done
        process_batch_def resolve_name_def Let_def)

text \<open>
  C9, amended: with the API key set and a positive batch size, a run of
  \<open>fetch_locations_batch\<close> sends no request for a name that is a key of the loaded
  checkpoint and returns that name with the coordinate stored there. A second run over
  the same name list, loading the checkpoint the first run left, requests exactly the
  names the first run left unresolved (each of which the service did not resolve in the
  first run) and keeps every coordinate of the first run; it performs no work when the
  first run resolved every name.
\<close>

theorem resolver_memoises_resolved_names:
  assumes "ak = Some k" and "k \<noteq> []" and "0 < batch_size"
  shows "\<exists>st1 st2.
           fetch_locations_batch ak names batch_size checkpoint g1 = Inr st1 \<and>
           (\<forall>r nm l. checkpoint = Some r \<and> r nm = Some l \<longrightarrow>
                nm \<notin> set (requests st1) \<and> results st1 nm = Some l) \<and>
           fetch_locations_batch ak names batch_size (saved st1) g2 = Inr st2 \<and>
           requests st2 = filter (\<lambda>nm. results st1 nm = None) names \<and>
           (\<forall>nm \<in> set (requests st2). g1 nm = None) \<and>
           (\<forall>nm l. results st1 nm = Some l \<longrightarrow> results st2 nm = Some l) \<and>
           ((\<forall>nm \<in> set names. results st1 nm \<noteq> None) \<longrightarrow> requests st2 = [])"
proof -
  obtain st1 where run1: "fetch_locations_batch ak names batch_size checkpoint g1 = Inr st1"
    and req1: "requests st1 = filter (\<lambda>nm. (case checkpoint of None \<Rightarrow> None | Some r \<Rightarrow> r nm) = None) names"
    and res1: "\<And>nm. results st1 nm =
              (case (case checkpoint of None \<Rightarrow> None | Some r \<Rightarrow> r nm) of
                 Some l \<Rightarrow> Some l
               | None \<Rightarrow> if nm \<in> set names then g1 nm else None)"
    and sav1: "(case saved st1 of None \<Rightarrow> Map.empty | Some r \<Rightarrow> r) = results st1"
    using fetch_locations_batch_run [OF assms, of names checkpoint g1] by blast
  have sav1': "(case saved st1 of None \<Rightarrow> None | Some r \<Rightarrow> r nm) = results st1 nm" for nm
    using fun_cong [OF sav1, of nm] by (simp split: option.splits)
  obtain st2 where run2: "fetch_locations_batch ak names batch_size (saved st1) g2 = Inr st2"
    and req2: "requests st2 = filter (\<lambda>nm. results st1 nm = None) names"
    and res2: "\<And>nm. results st2 nm =
              (case results st1 nm of
                 Some l \<Rightarrow> Some l
               | None \<Rightarrow> if nm \<in> set names then g2 nm else None)"
    using fetch_locations_batch_run [OF assms, of names "saved st1" g2] unfolding sav1' by blast
  have a: "\<forall>r nm l. checkpoint = Some r \<and> r nm = Some l \<longrightarrow>
             nm \<notin> set (requests st1) \<and> results st1 nm = Some l"
    by (simp add: req1 res1)
  have b: "\<forall>nm \<in> set (requests st2). g1 nm = None"
  proof
    fix nm assume "nm \<in> set (requests st2)"
    then have "nm \<in> set names" "results st1 nm = None" by (simp_all add: req2)
    then show "g1 nm = None"
      using res1 [of nm] by (simp split: option.splits)
  qed
  have c: "\<forall>nm l. results st1 nm = Some l \<longrightarrow> results st2 nm = Some l"
    by (simp add: res2)
  have d: "(\<forall>nm \<in> set names. results st1 nm \<noteq> None) \<longrightarrow> requests st2 = []"
    by (simp add: req2 filter_empty_conv)
  show ?thesis
    using run1 run2 a b c d req2 by blast
qed

theorem resolver_memoises_resolved_names_witness:
  "\<exists>st1. fetch_locations_batch (Some ''key'') [''Cork, Cork'', ''Nowhere, Mayo''] 50
            (Some [''Cork, Cork'' \<mapsto> (519 / 10, - (847 / 100))]) Map.empty = Inr st1 \<and>
         ''Cork, Cork'' \<notin> set (requests st1) \<and>
         results st1 ''Cork, Cork'' = Some (519 / 10, - (847 / 100))"
proof -
  have h: "Some ''key'' = Some ''key''" "''key'' \<noteq> []" "(0::nat) < 50" by simp_all
  from resolver_memoises_resolved_names [OF h, of "[''Cork, Cork'', ''Nowhere, Mayo'']"
      "Some [''Cork, Cork'' \<mapsto> (519 / 10, - (847 / 100))]" Map.empty Map.empty]
  obtain st1 where "fetch_locations_batch (Some ''key'') [''Cork, Cork'', ''Nowhere, Mayo''] 50
            (Some [''Cork, Cork'' \<mapsto> (519 / 10, - (847 / 100))]) Map.empty = Inr st1"
    and k: "\<And>r nm l. Some [''Cork, Cork'' \<mapsto> (519 / 10, - (847 / 100)::real)] = Some r \<and> r nm = Some l \<Longrightarrow>
                nm \<notin> set (requests st1) \<and> results st1 nm = Some l"
    by blast
  then show ?thesis
    using k [of "[''Cork, Cork'' \<mapsto> (519 / 10, - (847 / 100))]" "''Cork, Cork''" "(519 / 10, - (847 / 100))"]
    by simp
qed


subsection \<open>Rounded proportional shares\<close>


lemma py_round_of_int: "py_round (of_int n) = n"
  by (simp add: py_round_def Let_def)






subsection \<open>Append mode\<close>





subsection \<open>Spatial clusterer\<close>

lemma scan_candidates_mset:
  "scan_candidates D r g cs = (g', u) \<Longrightarrow> mset g' + mset u = mset g + mset cs"
proof (induction cs arbitrary: g g' u)
  case Nil
  then show ?case by simp
next
  case (Cons c cs)
  show ?case
  proof (cases "r = get_admin_region (name c) \<and>
                list_ex (\<lambda>s. calculate_distance (lat s, lon s) (lat c, lon c) \<le> D) g")
    case True
    with Cons.prems have "scan_candidates D r (g @ [c]) cs = (g', u)" by simp
    from Cons.IH [OF this] show ?thesis by simp
  next
    case False
    obtain g1 u1 where s: "scan_candidates D r g cs = (g1, u1)" by (cases "scan_candidates D r g cs")
    with Cons.prems False have "g' = g1" "u = c # u1" by (auto split: if_splits)
    with Cons.IH [OF s] show ?thesis by simp
  qed
qed

lemma scan_candidates_region:
  "scan_candidates D r g cs = (g', u) \<Longrightarrow> x \<in> set g' \<Longrightarrow>
     x \<in> set g \<or> get_admin_region (name x) = r"
proof (induction cs arbitrary: g g' u)
  case Nil
  then show ?case by simp
next
  case (Cons c cs)
  show ?case
  proof (cases "r = get_admin_region (name c) \<and>
                list_ex (\<lambda>s. calculate_distance (lat s, lon s) (lat c, lon c) \<le> D) g")
    case True
    with Cons.prems have "scan_candidates D r (g @ [c]) cs = (g', u)" by simp
    from Cons.IH [OF this Cons.prems(2)] True show ?thesis by auto
  next
    case False
    obtain g1 u1 where s: "scan_candidates D r g cs = (g1, u1)" by (cases "scan_candidates D r g cs")
    with Cons.prems False have "g' = g1" by (auto split: if_splits)
    with Cons.IH [OF s] Cons.prems(2) show ?thesis by simp
  qed
qed

lemma scan_candidates_length: "length (snd (scan_candidates D r g cs)) \<le> length cs"
proof (induction cs arbitrary: g)
  case Nil
  show ?case by simp
next
  case (Cons c cs)
  show ?case
    using Cons [of g] Cons [of "g @ [c]"] by (auto simp: le_SucI split: prod.splits)
qed

lemma group_loop_mset: "mset (concat (group_loop D xs)) = mset xs"
proof (induction D xs rule: group_loop.induct)
  case (1 D)
  show ?case by simp
next
  case (2 D s rest)
  obtain g u where sc: "scan_candidates D (get_admin_region (name s)) [s] rest = (g, u)"
    by (cases "scan_candidates D (get_admin_region (name s)) [s] rest")
  have "mset (concat (group_loop D (s # rest))) = mset g + mset (concat (group_loop D u))"
    using sc by simp
  also have "\<dots> = mset g + mset u"
    using "2.IH" [OF sc [symmetric]] by simp
  finally show ?case using scan_candidates_mset [OF sc] by simp
qed

lemma group_loop_region:
  "g \<in> set (group_loop D xs) \<Longrightarrow> x \<in> set g \<Longrightarrow> y \<in> set g \<Longrightarrow>
     get_admin_region (name x) = get_admin_region (name y)"
proof (induction D xs rule: group_loop.induct)
  case (1 D)
  then show ?case by simp
next
  case (2 D s rest)
  obtain g1 u where sc: "scan_candidates D (get_admin_region (name s)) [s] rest = (g1, u)"
    by (cases "scan_candidates D (get_admin_region (name s)) [s] rest")
  from "2.prems"(1) sc have "g = g1 \<or> g \<in> set (group_loop D u)" by simp
  then show ?case
  proof
    assume "g = g1"
    then have "get_admin_region (name z) = get_admin_region (name s)" if "z \<in> set g" for z
      using scan_candidates_region [OF sc, of z] that by auto
    then show ?thesis using "2.prems" by simp
  next
    assume "g \<in> set (group_loop D u)"
    from "2.IH" [OF sc [symmetric] this "2.prems"(2,3)] show ?thesis .
  qed
qed

lemma group_settlements_partition: "mset (concat (group_settlements xs D)) = mset xs"
  by (simp add: group_settlements_def group_loop_mset sort_by_population_desc_def)

lemma group_settlements_region:
  "g \<in> set (group_settlements xs D) \<Longrightarrow> x \<in> set g \<Longrightarrow> y \<in> set g \<Longrightarrow>
     get_admin_region (name x) = get_admin_region (name y)"
  unfolding group_settlements_def by (rule group_loop_region)

lemma group_settlements_members:
  "g \<in> set (group_settlements xs D) \<Longrightarrow> x \<in> set g \<Longrightarrow> x \<in> set xs"
proof -
  assume "g \<in> set (group_settlements xs D)" "x \<in> set g"
  then have "x \<in> set (concat (group_settlements xs D))" by auto
  then have "x \<in># mset (concat (group_settlements xs D))" by simp
  then show ?thesis unfolding group_settlements_partition by simp
qed

lemma sum_population_concat:
  "sum_population (concat gs) = sum_list (map sum_population gs)"
  by (induction gs) (simp_all add: sum_population_def)

subsection \<open>Settlement merger\<close>

lemma set_dedup: "set (dedup xs) = set xs"
  by (induction xs rule: dedup.induct) auto

lemma distinct_dedup: "distinct (dedup xs)"
  by (induction xs rule: dedup.induct) (auto simp: set_dedup)

lemma remdups_snoc: "remdups (ys @ [x]) = remdups (filter (\<lambda>y. y \<noteq> x) ys) @ [x]"
  by (induction ys) auto

lemma dedup_keeps_first: "dedup xs = rev (remdups (rev xs))"
proof (induction xs rule: dedup.induct)
  case 1
  show ?case by simp
next
  case (2 x xs)
  have "rev (remdups (rev (x # xs))) = x # rev (remdups (rev (filter (\<lambda>y. y \<noteq> x) xs)))"
    by (simp add: remdups_snoc rev_filter)
  with 2 show ?case by simp
qed

lemma max_population_from_mem: "max_population_from b ss \<in> set (b # ss)"
  by (induction ss arbitrary: b) (auto split: if_splits)

lemma max_population_from_max:
  "population best \<le> population (max_population_from best ss) \<and>
   (\<forall>s \<in> set ss. population s \<le> population (max_population_from best ss))"
proof (induction ss arbitrary: best)
  case Nil
  show ?case by simp
next
  case (Cons a ss)
  show ?case
    using Cons [of "if population best < population a then a else best"]
    by (auto split: if_splits)
qed

text \<open>The first element that attains the maximum: every earlier one is strictly smaller.\<close>

lemma max_population_from_first:
  "\<exists>i < length (b # ss). max_population_from b ss = (b # ss) ! i \<and>
      (\<forall>j < length (b # ss). population ((b # ss) ! j) \<le> population ((b # ss) ! i)) \<and>
      (\<forall>j < i. population ((b # ss) ! j) < population ((b # ss) ! i))"
proof (induction ss arbitrary: b)
  case Nil
  show ?case by simp
next
  case (Cons a ss)
  show ?case
  proof (cases "population b < population a")
    case True
    from Cons [of a] obtain i where i: "i < length (a # ss)"
      "max_population_from a ss = (a # ss) ! i"
      "\<forall>j < length (a # ss). population ((a # ss) ! j) \<le> population ((a # ss) ! i)"
      "\<forall>j < i. population ((a # ss) ! j) < population ((a # ss) ! i)"
      by blast
    have a_le: "population a \<le> population ((a # ss) ! i)" using i(3) by force
    have "\<forall>j < length (b # a # ss). population ((b # a # ss) ! j) \<le> population ((b # a # ss) ! Suc i)"
    proof (intro allI impI)
      fix j assume "j < length (b # a # ss)"
      then show "population ((b # a # ss) ! j) \<le> population ((b # a # ss) ! Suc i)"
        using i(3) a_le True by (cases j) auto
    qed
    moreover have "\<forall>j < Suc i. population ((b # a # ss) ! j) < population ((b # a # ss) ! Suc i)"
    proof (intro allI impI)
      fix j assume "j < Suc i"
      then show "population ((b # a # ss) ! j) < population ((b # a # ss) ! Suc i)"
        using i(4) a_le True by (cases j) auto
    qed
    ultimately show ?thesis
      using i(1,2) True by (intro exI [of _ "Suc i"]) simp
  next
    case False
    from Cons [of b] obtain i where i: "i < length (b # ss)"
      "max_population_from b ss = (b # ss) ! i"
      "\<forall>j < length (b # ss). population ((b # ss) ! j) \<le> population ((b # ss) ! i)"
      "\<forall>j < i. population ((b # ss) ! j) < population ((b # ss) ! i)"
      by blast
    show ?thesis
    proof (cases i)
      case 0
      have "\<forall>j < length (b # a # ss). population ((b # a # ss) ! j) \<le> population b"
      proof (intro allI impI)
        fix j assume j: "j < length (b # a # ss)"
        show "population ((b # a # ss) ! j) \<le> population b"
        proof (cases j)
          case 0 then show ?thesis by simp
        next
          case (Suc k)
          show ?thesis
          proof (cases k)
            case 0 with Suc False show ?thesis by simp
          next
            case (Suc l)
            with \<open>j = Suc k\<close> j i(3) \<open>i = 0\<close> show ?thesis by (auto dest: spec [of _ "Suc l"])
          qed
        qed
      qed
      then show ?thesis
        using i(2) 0 False by (intro exI [of _ 0]) simp
    next
      case (Suc k)
      have b_lt: "population b < population ((b # ss) ! i)" using i(4) Suc by force
      have "\<forall>j < length (b # a # ss). population ((b # a # ss) ! j) \<le> population ((b # a # ss) ! Suc i)"
      proof (intro allI impI)
        fix j assume j: "j < length (b # a # ss)"
        show "population ((b # a # ss) ! j) \<le> population ((b # a # ss) ! Suc i)"
        proof (cases j)
          case 0 then show ?thesis using b_lt Suc by simp
        next
          case (Suc l)
          show ?thesis
          proof (cases l)
            case 0 with \<open>j = Suc l\<close> False b_lt \<open>i = Suc k\<close> show ?thesis by simp
          next
            case (Suc l')
            with \<open>j = Suc l\<close> j i(3) \<open>i = Suc k\<close> show ?thesis by (auto dest: spec [of _ "Suc l'"])
          qed
        qed
      qed
      moreover have "\<forall>j < Suc i. population ((b # a # ss) ! j) < population ((b # a # ss) ! Suc i)"
      proof (intro allI impI)
        fix j assume j: "j < Suc i"
        show "population ((b # a # ss) ! j) < population ((b # a # ss) ! Suc i)"
        proof (cases j)
          case 0 then show ?thesis using b_lt Suc by simp
        next
          case (Suc l)
          show ?thesis
          proof (cases l)
            case 0 with \<open>j = Suc l\<close> False b_lt \<open>i = Suc k\<close> show ?thesis by simp
          next
            case (Suc l')
            with \<open>j = Suc l\<close> j i(4) \<open>i = Suc k\<close> show ?thesis by (auto dest: spec [of _ "Suc l'"])
          qed
        qed
      qed
      ultimately show ?thesis
        using i(1,2) False Suc by (intro exI [of _ "Suc i"]) simp
    qed
  qed
qed


lemma process_settlement_group_result:
  assumes "sum_population grp \<noteq> 0"
  shows "process_settlement_group grp =
           Inr \<lparr> name = name (max_population_from (hd grp) (tl grp)),
                 population = sum_population grp,
                 constituent_settlements = Some (collect_constituents grp),
                 lat = (\<Sum>s\<leftarrow>grp. lat s * of_int (population s)) / of_int (sum_population grp),
                 lon = (\<Sum>s\<leftarrow>grp. lon s * of_int (population s)) / of_int (sum_population grp) \<rparr>"
proof -
  from assms obtain s ss where "grp = s # ss"
    by (cases grp) (auto simp: sum_population_def)
  then show ?thesis
    using assms by (simp add: process_settlement_group_def max_population_def Let_def)
qed

lemma process_settlement_group_zero:
  "sum_population grp = 0 \<Longrightarrow> process_settlement_group grp = Inl ZeroDivisionError"
  by (simp add: process_settlement_group_def)

text \<open>
  C3, as stated: the constituent list of the merged settlement is the concatenation of
  the members' own constituents, a member's own name being used only when it has none.
  The code always lists the member's own name first and then its constituents.
\<close>

theorem merged_constituents_counterexample:
  "process_settlement_group
     [\<lparr> name = ''Bantry, Cork'', population = 2400,
        constituent_settlements = Some [''Glengarriff, Cork''], lat = 51, lon = - 9 \<rparr>]
   = Inr \<lparr> name = ''Bantry, Cork'', population = 2400,
           constituent_settlements = Some [''Bantry, Cork'', ''Glengarriff, Cork''],
           lat = 51, lon = - 9 \<rparr> \<and>
   spec_merged_constituents
     [\<lparr> name = ''Bantry, Cork'', population = 2400,
        constituent_settlements = Some [''Glengarriff, Cork''], lat = 51, lon = - 9 \<rparr>]
   = [''Glengarriff, Cork''] \<and>
   [''Bantry, Cork'', ''Glengarriff, Cork''] \<noteq> [''Glengarriff, Cork'']"
  by (simp add: process_settlement_group_def max_population_def sum_population_def
        collect_constituents_def own_and_constituents_def spec_merged_constituents_def
        spec_member_constituents_def Let_def)

text \<open>
  C3, amended: for every cluster of coordinate-bearing settlements whose total
  population is not zero, \<open>process_settlement_group\<close> returns one settlement whose
  population is the integer sum of the members' populations, whose \<open>(lat, lon)\<close> is the
  population-weighted centroid of the members' coordinates, whose name is the name of
  the first member attaining the highest population, and whose constituent list is the
  concatenation, over the members in order, of the member's own name followed by the
  member's own constituents (if it has any), with duplicates removed keeping first
  occurrences.
\<close>

theorem process_settlement_group_merges:
  assumes "sum_population grp \<noteq> 0"
  shows "\<exists>s. process_settlement_group grp = Inr s \<and>
           population s = sum_population grp \<and>
           lat s = (\<Sum>m\<leftarrow>grp. lat m * of_int (population m)) / of_int (sum_population grp) \<and>
           lon s = (\<Sum>m\<leftarrow>grp. lon m * of_int (population m)) / of_int (sum_population grp) \<and>
           (\<exists>i < length grp. name s = name (grp ! i) \<and>
              (\<forall>j < length grp. population (grp ! j) \<le> population (grp ! i)) \<and>
              (\<forall>j < i. population (grp ! j) < population (grp ! i))) \<and>
           constituent_settlements s =
             Some (rev (remdups (rev (concat (map (\<lambda>m. name m # constituents_of m) grp)))))"
proof -
  from assms obtain b ss where grp: "grp = b # ss"
    by (cases grp) (auto simp: sum_population_def)
  have "own_and_constituents = (\<lambda>m::geo_settlement. name m # constituents_of m)"
    by (rule ext) (simp add: own_and_constituents_def constituents_of_def)
  then have c: "collect_constituents grp
             = rev (remdups (rev (concat (map (\<lambda>m. name m # constituents_of m) grp))))"
    by (simp add: collect_constituents_def dedup_keeps_first)
  have "\<exists>i < length grp. name (max_population_from (hd grp) (tl grp)) = name (grp ! i) \<and>
              (\<forall>j < length grp. population (grp ! j) \<le> population (grp ! i)) \<and>
              (\<forall>j < i. population (grp ! j) < population (grp ! i))"
    using max_population_from_first [of b ss] unfolding grp by auto
  then show ?thesis
    unfolding process_settlement_group_result [OF assms] c by simp
qed

theorem process_settlement_group_merges_witness:
  "sum_population
     [\<lparr> name = ''Cork, Cork'', population = 3000, constituent_settlements = Some [''Cork, Cork''],
        lat = 52, lon = - 8 \<rparr>,
      \<lparr> name = ''Douglas, Cork'', population = 1000, constituent_settlements = None,
        lat = 51, lon = - 9 \<rparr>] \<noteq> 0 \<and>
   (\<exists>s. process_settlement_group
          [\<lparr> name = ''Cork, Cork'', population = 3000, constituent_settlements = Some [''Cork, Cork''],
             lat = 52, lon = - 8 \<rparr>,
           \<lparr> name = ''Douglas, Cork'', population = 1000, constituent_settlements = None,
             lat = 51, lon = - 9 \<rparr>] = Inr s \<and>
        population s = 4000 \<and> lat s = 207 / 4 \<and>
        constituent_settlements s = Some [''Cork, Cork'', ''Douglas, Cork''])"
proof -
  let ?g = "[\<lparr> name = ''Cork, Cork'', population = 3000, constituent_settlements = Some [''Cork, Cork''],
        lat = 52, lon = - 8 \<rparr>,
      \<lparr> name = ''Douglas, Cork'', population = 1000, constituent_settlements = None,
        lat = 51, lon = - 9 \<rparr>]"
  have h: "sum_population ?g \<noteq> 0" by (simp add: sum_population_def)
  have s: "sum_population ?g = 4000" by (simp add: sum_population_def)
  show ?thesis
    using process_settlement_group_merges [OF h] h unfolding s
    by (auto simp: constituents_of_def)
qed


subsection \<open>What the pregrouper emits\<close>

lemma process_region_append:
  "process_region m rs res = res @ process_region m rs []"
proof (induction rs arbitrary: res rule: length_induct)
  case (1 rs)
  show ?case
  proof (cases rs)
    case Nil
    then show ?thesis by simp
  next
    case (Cons current rs0)
    obtain g t rest where acc: "accumulate_group m [current] (population current) rs0 = (g, t, rest)"
      by (metis prod_cases3)
    have "length rest < length rs"
      using accumulate_group_length [of m "[current]" "population current" rs0] acc Cons by simp
    then have ih: "process_region m rest r = r @ process_region m rest []" for r
      using 1 by blast
    show ?thesis
      using acc Cons ih [of "res @ [merge_group g t current]"] ih [of "[merge_group g t current]"]
      by simp
  qed
qed

lemma process_region_step:
  "accumulate_group m [current] (population current) rs = (g, t, rest) \<Longrightarrow>
     process_region m (current # rs) [] = merge_group g t current # process_region m rest []"
  using process_region_append [of m rest "[merge_group g t current]"] by simp

lemma merge_group_total:
  assumes "accumulate_group m [current] (population current) rs = (g, t, rest)"
  shows "population (merge_group g t current) = t"
proof -
  from accumulate_group_split [OF assms]
  have split: "g @ rest = current # rs"
    and tot: "t - sum_population g = population current - sum_population [current]"
    and len: "1 \<le> length g" by simp_all
  have t: "t = sum_population g" using tot by (simp add: sum_population_def)
  have hd: "hd g = current" using split len by (cases g) auto
  show ?thesis using merge_group_population [OF len hd t] t by simp
qed

lemma process_region_below_floor:
  "length (filter (\<lambda>s. population s < m) (process_region m rs [])) \<le> 1"
proof (induction rs rule: length_induct)
  case (1 rs)
  show ?case
  proof (cases rs)
    case Nil
    then show ?thesis by simp
  next
    case (Cons current rs0)
    obtain g t rest where acc: "accumulate_group m [current] (population current) rs0 = (g, t, rest)"
      by (metis prod_cases3)
    have lt: "length rest < length rs"
      using accumulate_group_length [of m "[current]" "population current" rs0] acc Cons by simp
    show ?thesis
    proof (cases "rest = []")
      case True
      then show ?thesis using Cons process_region_step [OF acc] by simp
    next
      case False
      have "m \<le> population (merge_group g t current)"
        using accumulate_group_floor [OF acc False] merge_group_total [OF acc] by simp
      then show ?thesis
        using Cons process_region_step [OF acc] 1 lt by simp
    qed
  qed
qed

lemma merge_group_pure:
  assumes "\<forall>x \<in> set g. get_admin_region (name x) = r \<and> region_pure x"
    and "current \<in> set g"
  shows "get_admin_region (name (merge_group g t current)) = r \<and>
         region_pure (merge_group g t current)"
proof (cases "length g > 1")
  case False
  then show ?thesis using assms by (simp add: merge_group_def)
next
  case True
  then obtain b ss where g: "g = b # ss" by (cases g) auto
  have "max_population_from b ss \<in> set g"
    using max_population_from_mem [of b ss] g by simp
  then have nm: "get_admin_region (name (max_population_from (hd g) (tl g))) = r"
    using assms(1) g by auto
  have "get_admin_region c = r" if "c \<in> set (collect_constituents g)" for c
  proof -
    from that obtain x where x: "x \<in> set g" "c \<in> set (own_and_constituents x)"
      by (auto simp: collect_constituents_def set_dedup)
    then have "c = name x \<or> c \<in> set (constituents_of x)"
      by (auto simp: own_and_constituents_def constituents_of_def)
    then show ?thesis
      using assms(1) x(1) by (auto simp: region_pure_def list_all_iff)
  qed
  then show ?thesis
    using True nm by (simp add: merge_group_def region_pure_def constituents_of_def list_all_iff)
qed

lemma process_region_pure:
  assumes "\<forall>x \<in> set rs. get_admin_region (name x) = r \<and> region_pure x"
    and "s \<in> set (process_region m rs [])"
  shows "get_admin_region (name s) = r \<and> region_pure s"
  using assms
proof (induction rs rule: length_induct)
  case (1 rs)
  show ?case
  proof (cases rs)
    case Nil
    then show ?thesis using "1.prems" by simp
  next
    case (Cons current rs0)
    obtain g t rest where acc: "accumulate_group m [current] (population current) rs0 = (g, t, rest)"
      by (metis prod_cases3)
    have lt: "length rest < length rs"
      using accumulate_group_length [of m "[current]" "population current" rs0] acc Cons by simp
    from accumulate_group_split [OF acc]
    have split: "g @ rest = current # rs0" and len: "1 \<le> length g" by simp_all
    have cur: "current \<in> set g" using split len by (cases g) auto
    have sub: "set g \<subseteq> set rs" "set rest \<subseteq> set rs"
      using split Cons by (metis Un_upper1 set_append, metis Un_upper2 set_append)
    have "process_region m rs [] = merge_group g t current # process_region m rest []"
      using process_region_step [OF acc] by (simp only: Cons)
    with "1.prems"(2) have "s = merge_group g t current \<or> s \<in> set (process_region m rest [])"
      by simp
    then show ?thesis
    proof
      assume "s = merge_group g t current"
      then show ?thesis
        using merge_group_pure [of g r current t] "1.prems"(1) sub(1) cur by blast
    next
      assume "s \<in> set (process_region m rest [])"
      moreover have "\<forall>x \<in> set rest. get_admin_region (name x) = r \<and> region_pure x"
        using "1.prems"(1) sub(2) by blast
      ultimately show ?thesis using "1.IH" lt by blast
    qed
  qed
qed

lemma process_regions_concat:
  "process_regions m res regs =
     res @ concat (map (\<lambda>(k, rs). process_region m (sort_by_population_desc rs) []) regs)"
proof (induction regs arbitrary: res)
  case Nil
  show ?case by (simp add: process_regions_def)
next
  case (Cons a regs)
  obtain k rs where a: "a = (k, rs)" by (cases a)
  have "process_regions m res (a # regs)
          = process_regions m (process_region m (sort_by_population_desc rs) res) regs"
    by (simp add: process_regions_def a)
  also have "\<dots> = process_region m (sort_by_population_desc rs) res
               @ concat (map (\<lambda>(k, rs). process_region m (sort_by_population_desc rs) []) regs)"
    by (rule Cons)
  finally show ?case
    using process_region_append [of m "sort_by_population_desc rs" res] by (simp add: a)
qed

lemma set_sort_by_population_desc [simp]: "set (sort_by_population_desc xs) = set xs"
  by (simp add: sort_by_population_desc_def)

lemma merge_group_name:
  "current \<in> set g \<Longrightarrow> name (merge_group g t current) \<in> name ` set g"
proof (cases "length g > 1")
  case False
  assume "current \<in> set g"
  then show ?thesis using False by (simp add: merge_group_def)
next
  case True
  then obtain b ss where g: "g = b # ss" by (cases g) auto
  have "max_population_from b ss \<in> set g"
    using max_population_from_mem [of b ss] g by simp
  then show ?thesis using True g by (auto simp: merge_group_def)
qed

lemma filter_conj_length:
  "length (filter (\<lambda>s. P s \<and> Q s) xs) \<le> length (filter P xs)"
  by (induction xs) auto

lemma process_region_names:
  "s \<in> set (process_region m rs []) \<Longrightarrow> name s \<in> name ` set rs"
proof (induction rs rule: length_induct)
  case (1 rs)
  show ?case
  proof (cases rs)
    case Nil
    then show ?thesis using "1.prems" by simp
  next
    case (Cons current rs0)
    obtain g t rest where acc: "accumulate_group m [current] (population current) rs0 = (g, t, rest)"
      by (metis prod_cases3)
    have lt: "length rest < length rs"
      using accumulate_group_length [of m "[current]" "population current" rs0] acc Cons by simp
    from accumulate_group_split [OF acc]
    have split: "g @ rest = current # rs0" and len: "1 \<le> length g" by simp_all
    have cur: "current \<in> set g" using split len by (cases g) auto
    have sub: "set g \<subseteq> set rs" "set rest \<subseteq> set rs"
      using split Cons by (metis Un_upper1 set_append, metis Un_upper2 set_append)
    have "process_region m rs [] = merge_group g t current # process_region m rest []"
      using process_region_step [OF acc] by (simp only: Cons)
    with "1.prems" have "s = merge_group g t current \<or> s \<in> set (process_region m rest [])"
      by simp
    then show ?thesis
    proof
      assume "s = merge_group g t current"
      then show ?thesis using merge_group_name [OF cur, of t] sub(1) by auto
    next
      assume "s \<in> set (process_region m rest [])"
      then have "name s \<in> name ` set rest" using "1.IH" lt by blast
      then show ?thesis using sub(2) by auto
    qed
  qed
qed

text \<open>Across regions with distinct keys, at most one emitted settlement of a given
  region lies below the floor.\<close>

lemma regions_below_floor:
  assumes "distinct (map fst regs)"
    and "\<forall>(k, rs) \<in> set regs. \<forall>x \<in> set rs. get_admin_region (name x) = k"
  shows "length (filter (\<lambda>s. population s < m \<and> get_admin_region (name s) = r)
           (concat (map (\<lambda>(k, rs). process_region m (sort_by_population_desc rs) []) regs))) \<le> 1"
  using assms
proof (induction regs)
  case Nil
  show ?case by simp
next
  case (Cons a regs)
  obtain k rs where a: "a = (k, rs)" by (cases a)
  let ?out = "\<lambda>(k, rs). process_region m (sort_by_population_desc rs) []"
  let ?P = "\<lambda>s::settlement. population s < m \<and> get_admin_region (name s) = r"
  have names: "get_admin_region (name s) = k'"
    if "(k', rs') \<in> set (a # regs)" "s \<in> set (process_region m (sort_by_population_desc rs') [])"
    for k' rs' s
  proof -
    from process_region_names [OF that(2)] obtain x where "x \<in> set rs'" "name s = name x"
      by auto
    then show ?thesis using Cons.prems(2) that(1) by fastforce
  qed
  have split: "filter ?P (concat (map ?out (a # regs)))
                 = filter ?P (process_region m (sort_by_population_desc rs) [])
                   @ filter ?P (concat (map ?out regs))"
    by (simp add: a)
  show ?case
  proof (cases "k = r")
    case True
    have "filter ?P (concat (map ?out regs)) = []"
    proof -
      have "\<not> ?P s" if "s \<in> set (concat (map ?out regs))" for s
      proof -
        from that obtain k' rs' where kr: "(k', rs') \<in> set regs"
          "s \<in> set (process_region m (sort_by_population_desc rs') [])"
          by auto
        then have "get_admin_region (name s) = k'" using names [of k' rs' s] by simp
        moreover have "k' \<noteq> k" using kr(1) Cons.prems(1) a by force
        ultimately show ?thesis using True by simp
      qed
      then show ?thesis by (simp add: filter_empty_conv)
    qed
    moreover have "length (filter ?P (process_region m (sort_by_population_desc rs) []))
                     \<le> length (filter (\<lambda>s. population s < m) (process_region m (sort_by_population_desc rs) []))"
      by (rule filter_conj_length)
    ultimately show ?thesis
      unfolding split
      using process_region_below_floor [of m "sort_by_population_desc rs"] by simp
  next
    case False
    have "filter ?P (process_region m (sort_by_population_desc rs) []) = []"
      using names [of k rs] a False by (auto simp: filter_empty_conv)
    moreover have "length (filter ?P (concat (map ?out regs))) \<le> 1"
      using Cons.IH Cons.prems by simp
    ultimately show ?thesis unfolding split by simp
  qed
qed


subsection \<open>The floor of the pregrouper\<close>

lemma admin_regions_of_set:
  "(k, rs) \<in> set (admin_regions_of xs) \<Longrightarrow> x \<in> set rs \<Longrightarrow> x \<in> set xs"
proof -
  assume "(k, rs) \<in> set (admin_regions_of xs)" "x \<in> set rs"
  then have "x \<in> set (concat (map snd (admin_regions_of xs)))" by force
  then have "x \<in># mset (concat (map snd (admin_regions_of xs)))" by simp
  then show ?thesis unfolding admin_regions_of_mset by simp
qed

text \<open>
  C4, as stated: where reduction was necessary, every settlement formed by grouping has
  population at least \<open>P_min\<close>. When a region is exhausted before the running total
  reaches the floor, the group is emitted all the same: two settlements of 100 and 200
  in one region are merged into one settlement of 300 with \<open>P_min = 1000\<close>.
\<close>

theorem pregroup_floor_counterexample:
  "pregroup_small_settlements
     [\<lparr> name = ''A, Region1'', population = 100, constituent_settlements = None \<rparr>,
      \<lparr> name = ''B, Region1'', population = 200, constituent_settlements = None \<rparr>] 1000 1
   = Inr [\<lparr> name = ''B, Region1'', population = 300,
             constituent_settlements = Some [''B, Region1'', ''A, Region1''] \<rparr>] \<and>
   \<not> (1000 \<le> population \<lparr> name = ''B, Region1'', population = 300,
             constituent_settlements = Some [''B, Region1'', ''A, Region1''] \<rparr>)"
  by (simp add: pregroup_result sort_by_population_desc_def admin_regions_of_def
        region1_A region1_B process_regions_def merge_group_def collect_constituents_def
        own_and_constituents_def)

text \<open>
  C4, amended: \<open>pregroup_small_settlements\<close> always returns a list; its count never
  exceeds the input count; every input settlement with population at least \<open>P_min\<close>
  is emitted untouched; and for every input on which reduction was necessary (input
  count exceeds \<open>N_max\<close>), every emitted settlement has population at least \<open>P_min\<close>
  except at most one per administrative region, the region's last group, which is
  emitted when the region is exhausted.
\<close>

theorem pregroup_reduction_floor:
  "\<exists>out. pregroup_small_settlements xs m n = Inr out \<and>
         length out \<le> length xs \<and>
         (\<forall>s \<in> set xs. m \<le> population s \<longrightarrow> s \<in> set out) \<and>
         (n < length xs \<longrightarrow>
            (\<forall>r. length (filter (\<lambda>s. population s < m \<and> get_admin_region (name s) = r) out)
                   \<le> 1))"
proof -
  let ?ys = "sort_by_population_desc xs"
  let ?hi = "filter (\<lambda>s. m \<le> population s) ?ys"
  let ?lo = "filter (\<lambda>s. population s < m) ?ys"
  let ?regs = "admin_regions_of ?lo"
  let ?low = "\<lambda>r. \<lambda>s::settlement. population s < m \<and> get_admin_region (name s) = r"
  obtain out where out: "pregroup_small_settlements xs m n = Inr out"
    using pregroup_conserves [of xs m n] by blast
  have len: "length out \<le> length xs" by (rule pregroup_length [OF out])
  have pass: "\<forall>s \<in> set xs. m \<le> population s \<longrightarrow> s \<in> set out"
  proof (cases "length xs \<le> n")
    case True
    then show ?thesis using out by (simp add: pregroup_result)
  next
    case False
    then have "out = process_regions m ?hi ?regs" using out by (simp add: pregroup_result)
    then show ?thesis by (simp add: process_regions_concat)
  qed
  have floor: "length (filter (?low r) out) \<le> 1" if "n < length xs" for r
  proof -
    have o: "out = ?hi @ concat (map (\<lambda>(k, rs). process_region m (sort_by_population_desc rs) []) ?regs)"
      using out that by (simp add: pregroup_result process_regions_concat)
    have "filter (?low r) ?hi = []" by (auto simp: filter_empty_conv)
    moreover have "\<forall>(k, rs) \<in> set ?regs. \<forall>x \<in> set rs. get_admin_region (name x) = k"
      using admin_regions_of_members by blast
    ultimately show ?thesis
      unfolding o
      using regions_below_floor [OF admin_regions_of_distinct, of ?lo m r] by simp
  qed
  show ?thesis using out len pass floor by blast
qed

theorem pregroup_reduction_floor_witness:
  "\<exists>out. pregroup_small_settlements
           [\<lparr> name = ''A, Region1'', population = 100, constituent_settlements = None \<rparr>,
            \<lparr> name = ''B, Region1'', population = 200, constituent_settlements = None \<rparr>,
            \<lparr> name = ''C, Region2'', population = 5000, constituent_settlements = None \<rparr>] 1000 1
         = Inr out \<and>
         length out \<le> 3 \<and>
         \<lparr> name = ''C, Region2'', population = 5000, constituent_settlements = None \<rparr> \<in> set out \<and>
         length (filter (\<lambda>s. population s < 1000 \<and> get_admin_region (name s) = ''Region1'') out) \<le> 1"
proof -
  let ?xs = "[\<lparr> name = ''A, Region1'', population = 100, constituent_settlements = None \<rparr>,
            \<lparr> name = ''B, Region1'', population = 200, constituent_settlements = None \<rparr>,
            \<lparr> name = ''C, Region2'', population = 5000, constituent_settlements = None \<rparr>]"
  from pregroup_reduction_floor [of ?xs 1000 1]
  obtain out where o: "pregroup_small_settlements ?xs 1000 1 = Inr out"
    "length out \<le> length ?xs"
    "\<forall>s \<in> set ?xs. 1000 \<le> population s \<longrightarrow> s \<in> set out"
    "1 < length ?xs \<longrightarrow>
       (\<forall>r. length (filter (\<lambda>s. population s < 1000 \<and> get_admin_region (name s) = r) out) \<le> 1)"
    by blast
  have "length (filter (\<lambda>s. population s < 1000 \<and> get_admin_region (name s) = ''Region1'') out) \<le> 1"
    using o(4) by simp
  then show ?thesis using o(1,2,3) by simp
qed


subsection \<open>Clustering and merging conserve population\<close>

lemma scan_candidates_prefix:
  "scan_candidates D r g cs = (g', u) \<Longrightarrow> \<exists>ys. g' = g @ ys"
proof (induction cs arbitrary: g g' u)
  case Nil
  then show ?case by simp
next
  case (Cons c cs)
  show ?case
  proof (cases "r = get_admin_region (name c) \<and>
                list_ex (\<lambda>s. calculate_distance (lat s, lon s) (lat c, lon c) \<le> D) g")
    case True
    with Cons.prems have "scan_candidates D r (g @ [c]) cs = (g', u)" by simp
    from Cons.IH [OF this] show ?thesis by auto
  next
    case False
    obtain g1 u1 where s: "scan_candidates D r g cs = (g1, u1)" by (cases "scan_candidates D r g cs")
    with Cons.prems False have "g' = g1" by (auto split: if_splits)
    with Cons.IH [OF s] show ?thesis by simp
  qed
qed

lemma scan_candidates_nonempty:
  "scan_candidates D r g cs = (g', u) \<Longrightarrow> g \<noteq> [] \<Longrightarrow> g' \<noteq> []"
  using scan_candidates_prefix [of D r g cs g' u] by auto

lemma group_loop_nonempty: "g \<in> set (group_loop D xs) \<Longrightarrow> g \<noteq> []"
proof (induction D xs rule: group_loop.induct)
  case (1 D)
  then show ?case by simp
next
  case (2 D s rest)
  obtain g1 u where sc: "scan_candidates D (get_admin_region (name s)) [s] rest = (g1, u)"
    by (cases "scan_candidates D (get_admin_region (name s)) [s] rest")
  from "2.prems" sc have "g = g1 \<or> g \<in> set (group_loop D u)" by simp
  then show ?case
    using scan_candidates_nonempty [OF sc] "2.IH" [OF sc [symmetric]] by auto
qed

lemma clusters_positive:
  assumes "\<forall>x \<in> set xs. 0 < population x" and "g \<in> set (group_settlements xs D)"
  shows "sum_population g \<noteq> 0"
proof -
  have ne: "g \<noteq> []" using assms(2) group_loop_nonempty by (auto simp: group_settlements_def)
  have pos: "\<forall>x \<in> set g. 0 < population x"
    using assms group_settlements_members by blast
  from ne obtain b ys where g: "g = b # ys" by (cases g) auto
  have "0 \<le> sum_list (map population ys)"
    by (rule sum_list_nonneg) (use pos g in auto)
  moreover have "0 < population b" using pos g by simp
  ultimately show ?thesis by (simp add: g sum_population_def)
qed

lemma collect_results_merged:
  assumes "\<forall>g \<in> set gs. sum_population g \<noteq> 0"
  shows "\<exists>merged. collect_results (map process_settlement_group gs) = Inr merged \<and>
           map population merged = map sum_population gs"
  using assms
proof (induction gs)
  case Nil
  show ?case by simp
next
  case (Cons g gs)
  then obtain merged where m: "collect_results (map process_settlement_group gs) = Inr merged"
    "map population merged = map sum_population gs" by auto
  have "sum_population g \<noteq> 0" using Cons.prems by simp
  from process_settlement_group_result [OF this] m show ?case by simp
qed

lemma merged_clusters_sum:
  assumes "\<forall>g \<in> set (group_settlements xs D). sum_population g \<noteq> 0"
  shows "\<exists>merged. collect_results (map process_settlement_group (group_settlements xs D)) = Inr merged \<and>
           sum_population merged = sum_population xs"
proof -
  from collect_results_merged [OF assms] obtain merged where
    m: "collect_results (map process_settlement_group (group_settlements xs D)) = Inr merged"
    "map population merged = map sum_population (group_settlements xs D)" by blast
  have "sum_population merged = sum_list (map sum_population (group_settlements xs D))"
    using m(2) by (simp add: sum_population_def)
  also have "\<dots> = sum_population (concat (group_settlements xs D))"
    by (simp add: sum_population_concat)
  also have "\<dots> = sum_population xs"
    by (rule sum_population_mset) (rule group_settlements_partition)
  finally show ?thesis using m(1) by blast
qed

subsection \<open>Region purity\<close>

lemma pregroup_pure:
  assumes "\<forall>s \<in> set ys. region_pure s"
    and "pregroup_small_settlements ys m n = Inr out" and "s \<in> set out"
  shows "region_pure s"
proof (cases "length ys \<le> n")
  case True
  then show ?thesis using assms by (simp add: pregroup_result)
next
  case False
  let ?zs = "sort_by_population_desc ys"
  let ?hi = "filter (\<lambda>s. m \<le> population s) ?zs"
  let ?lo = "filter (\<lambda>s. population s < m) ?zs"
  let ?regs = "admin_regions_of ?lo"
  have "out = ?hi @ concat (map (\<lambda>(k, rs). process_region m (sort_by_population_desc rs) []) ?regs)"
    using assms(2) False by (simp add: pregroup_result process_regions_concat)
  with assms(3) consider "s \<in> set ?hi"
    | k rs where "(k, rs) \<in> set ?regs" "s \<in> set (process_region m (sort_by_population_desc rs) [])"
    by auto
  then show ?thesis
  proof cases
    case 1
    then show ?thesis using assms(1) by simp
  next
    case 2
    have "\<forall>x \<in> set (sort_by_population_desc rs). get_admin_region (name x) = k \<and> region_pure x"
    proof
      fix x assume "x \<in> set (sort_by_population_desc rs)"
      then have x: "x \<in> set rs" by simp
      then have "x \<in> set ?lo" using admin_regions_of_set [OF 2(1)] by blast
      then have "region_pure x" using assms(1) by simp
      then show "get_admin_region (name x) = k \<and> region_pure x"
        using admin_regions_of_members [OF 2(1) x] by simp
    qed
    from process_region_pure [OF this 2(2)] show ?thesis by simp
  qed
qed

lemma merged_cluster_pure:
  assumes pure: "\<forall>x \<in> set g. region_pure x"
    and same: "\<forall>x \<in> set g. \<forall>y \<in> set g. get_admin_region (name x) = get_admin_region (name y)"
    and res: "process_settlement_group g = Inr s"
  shows "region_pure s"
proof -
  have nz: "sum_population g \<noteq> 0"
    using res process_settlement_group_zero [of g] by auto
  then obtain b ss where g: "g = b # ss" by (cases g) (auto simp: sum_population_def)
  have mx: "max_population_from (hd g) (tl g) \<in> set g"
    using max_population_from_mem [of b ss] g by simp
  have nm: "name s = name (max_population_from (hd g) (tl g))"
    and cs: "constituent_settlements s = Some (collect_constituents g)"
    using res unfolding process_settlement_group_result [OF nz] by auto
  have "get_admin_region c = get_admin_region (name s)" if "c \<in> set (collect_constituents g)" for c
  proof -
    from that obtain x where x: "x \<in> set g" "c \<in> set (own_and_constituents x)"
      by (auto simp: collect_constituents_def set_dedup)
    then have "c = name x \<or> c \<in> set (constituents_of x)"
      by (auto simp: own_and_constituents_def constituents_of_def)
    then have "get_admin_region c = get_admin_region (name x)"
      using pure x(1) by (auto simp: region_pure_def list_all_iff)
    also have "\<dots> = get_admin_region (name (max_population_from (hd g) (tl g)))"
      using same x(1) mx by blast
    finally show ?thesis by (simp only: nm)
  qed
  then show ?thesis
    by (simp add: region_pure_def constituents_of_def cs list_all_iff)
qed

text \<open>
  C8, as stated, with the administrative region read as the substring after the first
  comma of the name: two settlements at the same place named \<open>Ballybeg, Cork, North\<close>
  and \<open>Ardmore, Cork, South\<close> are put into one cluster, although the substrings after
  their first commas differ. The code compares the second comma-separated field,
  stripped of surrounding whitespace, which is \<open>Cork\<close> for both.
\<close>

theorem region_after_first_comma_counterexample:
  "group_settlements
     [\<lparr> name = ''Ballybeg, Cork, North'', population = 500,
        constituent_settlements = Some [''Ballybeg, Cork, North''], lat = 52, lon = - 8 \<rparr>,
      \<lparr> name = ''Ardmore, Cork, South'', population = 400,
        constituent_settlements = Some [''Ardmore, Cork, South''], lat = 52, lon = - 8 \<rparr>] 30
   = [[\<lparr> name = ''Ballybeg, Cork, North'', population = 500,
         constituent_settlements = Some [''Ballybeg, Cork, North''], lat = 52, lon = - 8 \<rparr>,
       \<lparr> name = ''Ardmore, Cork, South'', population = 400,
         constituent_settlements = Some [''Ardmore, Cork, South''], lat = 52, lon = - 8 \<rparr>]] \<and>
   spec_region_after_first_comma ''Ballybeg, Cork, North'' = '' Cork, North'' \<and>
   spec_region_after_first_comma ''Ardmore, Cork, South'' = '' Cork, South'' \<and>
   spec_region_after_first_comma ''Ballybeg, Cork, North''
     \<noteq> spec_region_after_first_comma ''Ardmore, Cork, South''"
  by (simp add: group_settlements_def sort_by_population_desc_def get_admin_region_def
        strip_def isspace_def calculate_distance_self spec_region_after_first_comma_def)

text \<open>
  C8, amended, with the administrative region of a name being what \<open>get_admin_region\<close>
  returns (the second comma-separated field, stripped of surrounding whitespace, empty
  when there is no comma): no cluster returned by \<open>group_settlements\<close> contains two
  settlements of different regions; when every input settlement is region-pure (as every
  settlement without constituents is), every settlement emitted by
  \<open>pregroup_small_settlements\<close> is region-pure, and so is every settlement that
  \<open>process_settlement_group\<close> returns for a cluster of \<open>group_settlements\<close>.
\<close>

theorem region_purity:
  "(\<forall>g \<in> set (group_settlements xs D). \<forall>x \<in> set g. \<forall>y \<in> set g.
       get_admin_region (name x) = get_admin_region (name y)) \<and>
   ((\<forall>s \<in> set ys. region_pure s) \<longrightarrow>
      (\<exists>out. pregroup_small_settlements ys m n = Inr out \<and> (\<forall>s \<in> set out. region_pure s))) \<and>
   ((\<forall>s \<in> set xs. region_pure s) \<longrightarrow>
      (\<forall>g \<in> set (group_settlements xs D). \<forall>s. process_settlement_group g = Inr s \<longrightarrow>
         region_pure s))"
proof (intro conjI impI)
  show "\<forall>g \<in> set (group_settlements xs D). \<forall>x \<in> set g. \<forall>y \<in> set g.
          get_admin_region (name x) = get_admin_region (name y)"
    using group_settlements_region by blast
next
  assume "\<forall>s \<in> set ys. region_pure s"
  moreover obtain out where "pregroup_small_settlements ys m n = Inr out"
    using pregroup_conserves [of ys m n] by blast
  ultimately show "\<exists>out. pregroup_small_settlements ys m n = Inr out \<and> (\<forall>s \<in> set out. region_pure s)"
    using pregroup_pure by blast
next
  assume pure: "\<forall>s \<in> set xs. region_pure s"
  show "\<forall>g \<in> set (group_settlements xs D). \<forall>s. process_settlement_group g = Inr s \<longrightarrow> region_pure s"
  proof (intro ballI allI impI)
    fix g s assume g: "g \<in> set (group_settlements xs D)" and r: "process_settlement_group g = Inr s"
    have "\<forall>x \<in> set g. region_pure x"
      using pure group_settlements_members [OF g] by blast
    moreover have "\<forall>x \<in> set g. \<forall>y \<in> set g. get_admin_region (name x) = get_admin_region (name y)"
      using group_settlements_region [OF g] by blast
    ultimately show "region_pure s" using merged_cluster_pure r by blast
  qed
qed

theorem region_purity_witness:
  "(\<exists>out. pregroup_small_settlements
            [\<lparr> name = ''Cobh, Cork'', population = 400, constituent_settlements = None \<rparr>,
             \<lparr> name = ''Midleton, Cork'', population = 300, constituent_settlements = None \<rparr>,
             \<lparr> name = ''Ennis, Clare'', population = 200, constituent_settlements = None \<rparr>] 1000 1
          = Inr out \<and> list_all region_pure out) \<and>
   list_all (\<lambda>g. list_all (\<lambda>x. list_all (\<lambda>y. get_admin_region (name x) = get_admin_region (name y)) g) g)
     (group_settlements
        [\<lparr> name = ''Cobh, Cork'', population = 400, constituent_settlements = Some [''Cobh, Cork''],
           lat = 52, lon = - 8 \<rparr>,
         \<lparr> name = ''Ennis, Clare'', population = 200, constituent_settlements = Some [''Ennis, Clare''],
           lat = 52, lon = - 8 \<rparr>] 30) \<and>
   list_all (\<lambda>g. \<exists>s. process_settlement_group g = Inr s \<and> region_pure s)
     (group_settlements
        [\<lparr> name = ''Cobh, Cork'', population = 400, constituent_settlements = Some [''Cobh, Cork''],
           lat = 52, lon = - 8 \<rparr>,
         \<lparr> name = ''Ennis, Clare'', population = 200, constituent_settlements = Some [''Ennis, Clare''],
           lat = 52, lon = - 8 \<rparr>] 30)"
proof -
  let ?ys = "[\<lparr> name = ''Cobh, Cork'', population = 400, constituent_settlements = None \<rparr>,
             \<lparr> name = ''Midleton, Cork'', population = 300, constituent_settlements = None \<rparr>,
             \<lparr> name = ''Ennis, Clare'', population = 200, constituent_settlements = None \<rparr>]"
  let ?xs = "[\<lparr> name = ''Cobh, Cork'', population = 400, constituent_settlements = Some [''Cobh, Cork''],
           lat = 52, lon = - 8 \<rparr>,
         \<lparr> name = ''Ennis, Clare'', population = 200, constituent_settlements = Some [''Ennis, Clare''],
           lat = 52, lon = - 8 \<rparr>]"
  have h: "\<forall>s \<in> set ?ys. region_pure s"
    by (simp add: region_pure_def constituents_of_def)
  have h2: "\<forall>s \<in> set ?xs. region_pure s"
    by (simp add: region_pure_def constituents_of_def)
  have pos: "\<forall>x \<in> set ?xs. 0 < population x" by simp
  have ex: "\<exists>s. process_settlement_group g = Inr s" if "g \<in> set (group_settlements ?xs 30)" for g
    using process_settlement_group_result [OF clusters_positive [OF pos that]] by blast
  show ?thesis
    using region_purity [of ?xs 30 ?ys 1000 1] h h2 ex
    by (simp only: list_all_iff) blast
qed


subsection \<open>The orchestrator\<close>

lemma attach_coordinates_parts:
  "attach_coordinates grouped locs = (matched, not_found) \<Longrightarrow>
     sum_population matched = sum_population (filter (\<lambda>s. locs (name s) \<noteq> None) grouped) \<and>
     not_found = map name (filter (\<lambda>s. locs (name s) = None) grouped) \<and>
     length matched + length not_found = length grouped"
proof (induction grouped arbitrary: matched not_found)
  case Nil
  then show ?case by (simp add: attach_coordinates_def sum_population_def)
next
  case (Cons s grouped)
  obtain m1 n1 where a: "attach_coordinates grouped locs = (m1, n1)"
    by (cases "attach_coordinates grouped locs")
  from Cons.IH [OF a] a Cons.prems show ?case
    by (cases "locs (name s)") (auto simp: attach_coordinates_def sum_population_def)
qed

lemma sum_population_add_grid:
  "sum_population (map (add_grid_coordinates t) merged) = sum_population merged"
  by (induction merged) (simp_all add: sum_population_def add_grid_coordinates_def Let_def)

lemma gate_threshold:
  "high_failure_rate not_found names \<longleftrightarrow>
     not_found \<noteq> [] \<and> length names < 10 * length not_found"
proof (cases "names = []")
  case True
  then show ?thesis by (cases not_found) (simp_all add: high_failure_rate_def failure_rate_of_def)
next
  case False
  then have "0 < real (length names)" by simp
  then have "(1 / 10 < real (length not_found) / real (length names))
               \<longleftrightarrow> real (length names) < 10 * real (length not_found)"
    by (simp add: field_simps)
  also have "\<dots> \<longleftrightarrow> length names < 10 * length not_found"
    by (metis of_nat_less_iff of_nat_mult of_nat_numeral)
  finally show ?thesis using False by (simp add: high_failure_rate_def failure_rate_of_def)
qed

lemma fresh_final_data_written:
  assumes "\<not> high_failure_rate not_found names" and "names \<noteq> []"
  shows "\<exists>fd. fresh_final_data fs t tr not_found names = Inr fd \<and>
           write_and_finish fd = Written fd True \<and>
           settlements fd = fs \<and>
           total_population (metadata fd) = sum_population fs \<and>
           total_ireland_population (metadata fd) = t \<and>
           unmatched_settlements (metadata fd) = not_found"
proof -
  have "real (length not_found) / real (length names) \<le> 1 / 10"
    using assms by (cases "not_found = []") (simp_all add: high_failure_rate_def failure_rate_of_def)
  then show ?thesis
    using assms(2) by (simp add: write_and_finish_def fresh_final_data_def failure_rate_of_def)
qed

text \<open>A fresh run (no append mode, no checkpoint of the grouping or of the final stage)
  with the API key set, in closed form.\<close>

lemma main_fresh_run:
  assumes "\<not> append_mode env" and "ck_grouped_settlements env = None"
    and "ck_final_settlements env = None" and "api_key env = Some k" and "k \<noteq> []"
  shows "\<exists>grouped st matched not_found.
           pregroup_small_settlements (cso_settlements env) 1000 1000 = Inr grouped \<and>
           sum_population grouped = sum_population (cso_settlements env) \<and>
           fetch_locations_batch (api_key env) (map name grouped) 50 (ck_locations env) (geocode env)
             = Inr st \<and>
           attach_coordinates grouped (results st) = (matched, not_found) \<and>
           main env =
             (if high_failure_rate not_found (map name grouped) \<or> matched = [] then SystemExit1
              else case collect_results (map process_settlement_group (group_settlements matched 30)) of
                     Inl e \<Rightarrow> SystemExit1
                   | Inr merged \<Rightarrow>
                       (case fresh_final_data
                               (map (add_grid_coordinates calculate_grid_transformation) merged)
                               (sum_population (cso_settlements env))
                               calculate_grid_transformation not_found (map name grouped) of
                          Inl e \<Rightarrow> SystemExit1
                        | Inr fd \<Rightarrow> Written fd True))"
proof -
  obtain grouped where g: "pregroup_small_settlements (cso_settlements env) 1000 1000 = Inr grouped"
    "sum_population grouped = sum_population (cso_settlements env)"
    using pregroup_conserves by blast
  obtain st where st: "fetch_locations_batch (api_key env) (map name grouped) 50 (ck_locations env)
                         (geocode env) = Inr st"
    using fetch_locations_batch_run [OF assms(4,5), of 50 "map name grouped" "ck_locations env" "geocode env"]
    by auto
  obtain matched not_found where a: "attach_coordinates grouped (results st) = (matched, not_found)"
    by (cases "attach_coordinates grouped (results st)")
  have names: "map name grouped \<noteq> []" if "matched \<noteq> []"
    using attach_coordinates_parts [OF a] that by auto
  have fin: "(case fresh_final_data fs t tr not_found (map name grouped) of
                Inl e \<Rightarrow> SystemExit1 | Inr fd \<Rightarrow> write_and_finish fd)
             = (case fresh_final_data fs t tr not_found (map name grouped) of
                Inl e \<Rightarrow> SystemExit1 | Inr fd \<Rightarrow> Written fd True)"
    if "\<not> high_failure_rate not_found (map name grouped)" "matched \<noteq> []" for fs t tr
    using fresh_final_data_written [OF that(1) names [OF that(2)], of fs t tr] by auto
  have "main env =
             (if high_failure_rate not_found (map name grouped) \<or> matched = [] then SystemExit1
              else case collect_results (map process_settlement_group (group_settlements matched 30)) of
                     Inl e \<Rightarrow> SystemExit1
                   | Inr merged \<Rightarrow>
                       (case fresh_final_data
                               (map (add_grid_coordinates calculate_grid_transformation) merged)
                               (sum_population (cso_settlements env))
                               calculate_grid_transformation not_found (map name grouped) of
                          Inl e \<Rightarrow> SystemExit1
                        | Inr fd \<Rightarrow> Written fd True))"
    using assms g(1) st a fin
    by (auto simp: main_def stage5_def Let_def split: sum.splits)
  then show ?thesis using g st a by blast
qed


subsection \<open>Fresh runs of the orchestrator\<close>


lemma main_fresh_written:
  assumes fresh: "\<not> append_mode env" "ck_grouped_settlements env = None"
      "ck_final_settlements env = None"
    and key: "api_key env = Some k" "k \<noteq> []"
    and grouped: "pregroup_small_settlements (cso_settlements env) 1000 1000 = Inr grouped"
    and locs: "\<forall>nm. locs nm =
                 (case (case ck_locations env of None \<Rightarrow> None | Some r \<Rightarrow> r nm) of
                    Some l \<Rightarrow> Some l
                  | None \<Rightarrow> if nm \<in> set (map name grouped) then geocode env nm else None)"
    and att: "attach_coordinates grouped locs = (matched, not_found)"
    and gate: "\<not> high_failure_rate not_found (map name grouped)" "matched \<noteq> []"
    and nz: "\<forall>g \<in> set (group_settlements matched 30). sum_population g \<noteq> 0"
  shows "\<exists>fd. main env = Written fd True \<and>
           total_population (metadata fd) = sum_population matched \<and>
           total_ireland_population (metadata fd) = sum_population (cso_settlements env) \<and>
           unmatched_settlements (metadata fd) = not_found"
proof -
  from main_fresh_run [OF fresh key]
  obtain grouped' st matched' not_found' where
    g': "pregroup_small_settlements (cso_settlements env) 1000 1000 = Inr grouped'"
    and st: "fetch_locations_batch (api_key env) (map name grouped') 50 (ck_locations env) (geocode env)
               = Inr st"
    and a': "attach_coordinates grouped' (results st) = (matched', not_found')"
    and m: "main env =
             (if high_failure_rate not_found' (map name grouped') \<or> matched' = [] then SystemExit1
              else case collect_results (map process_settlement_group (group_settlements matched' 30)) of
                     Inl e \<Rightarrow> SystemExit1
                   | Inr merged \<Rightarrow>
                       (case fresh_final_data
                               (map (add_grid_coordinates calculate_grid_transformation) merged)
                               (sum_population (cso_settlements env))
                               calculate_grid_transformation not_found' (map name grouped') of
                          Inl e \<Rightarrow> SystemExit1
                        | Inr fd \<Rightarrow> Written fd True))"
    by blast
  have gg: "grouped' = grouped" using g' grouped by simp
  obtain st2 where st2: "fetch_locations_batch (api_key env) (map name grouped) 50 (ck_locations env)
                          (geocode env) = Inr st2"
    and res: "\<forall>nm. results st2 nm =
              (case (case ck_locations env of None \<Rightarrow> None | Some r \<Rightarrow> r nm) of
                 Some l \<Rightarrow> Some l
               | None \<Rightarrow> if nm \<in> set (map name grouped) then geocode env nm else None)"
    using fetch_locations_batch_run [OF key, of 50 "map name grouped" "ck_locations env" "geocode env"]
    by auto
  have "st2 = st" using st st2 gg by simp
  then have "results st = locs" using res locs by (intro ext) simp
  then have eq: "matched' = matched" "not_found' = not_found" using a' att gg by simp_all
  obtain merged where mg: "collect_results (map process_settlement_group (group_settlements matched 30))
                             = Inr merged" "sum_population merged = sum_population matched"
    using merged_clusters_sum [OF nz] by blast
  have names: "map name grouped \<noteq> []"
    using attach_coordinates_parts [OF att] gate(2) by auto
  obtain fd where fd: "fresh_final_data (map (add_grid_coordinates calculate_grid_transformation) merged)
                         (sum_population (cso_settlements env)) calculate_grid_transformation
                         not_found (map name grouped) = Inr fd"
    "total_population (metadata fd)
       = sum_population (map (add_grid_coordinates calculate_grid_transformation) merged)"
    "total_ireland_population (metadata fd) = sum_population (cso_settlements env)"
    "unmatched_settlements (metadata fd) = not_found"
    using fresh_final_data_written [OF gate(1) names] by blast
  have "main env = Written fd True"
    using m gate mg(1) fd(1) by (simp add: eq gg)
  then show ?thesis
    using fd(2,3,4) mg(2) by (simp add: sum_population_add_grid)
qed



subsection \<open>Population conservation\<close>





subsection \<open>The unresolved-rate gate\<close>

text \<open>The gate of a fresh run with the API key set: above 10\% the run ends with
  \<open>SystemExit(1)\<close> and \<open>clear_checkpoints\<close> is not called; at or below 10\%, with at
  least one name and no cluster of zero total population, the dataset is written and
  the checkpoints are cleared.\<close>

lemma unresolved_rate_gate:
  assumes fresh: "\<not> append_mode env" "ck_grouped_settlements env = None"
      "ck_final_settlements env = None"
    and key: "api_key env = Some k" "k \<noteq> []"
  shows "\<exists>grouped st matched not_found.
           pregroup_small_settlements (cso_settlements env) 1000 1000 = Inr grouped \<and>
           fetch_locations_batch (api_key env) (map name grouped) 50 (ck_locations env) (geocode env)
             = Inr st \<and>
           attach_coordinates grouped (results st) = (matched, not_found) \<and>
           (length grouped < 10 * length not_found \<longrightarrow> main env = SystemExit1) \<and>
           (10 * length not_found \<le> length grouped \<and> grouped \<noteq> [] \<and>
            (\<forall>g \<in> set (group_settlements matched 30). sum_population g \<noteq> 0) \<longrightarrow>
              (\<exists>fd. main env = Written fd True))"
proof -
  from main_fresh_run [OF fresh key]
  obtain grouped st matched not_found where
    g: "pregroup_small_settlements (cso_settlements env) 1000 1000 = Inr grouped"
    and st: "fetch_locations_batch (api_key env) (map name grouped) 50 (ck_locations env) (geocode env)
               = Inr st"
    and a: "attach_coordinates grouped (results st) = (matched, not_found)"
    and m: "main env =
             (if high_failure_rate not_found (map name grouped) \<or> matched = [] then SystemExit1
              else case collect_results (map process_settlement_group (group_settlements matched 30)) of
                     Inl e \<Rightarrow> SystemExit1
                   | Inr merged \<Rightarrow>
                       (case fresh_final_data
                               (map (add_grid_coordinates calculate_grid_transformation) merged)
                               (sum_population (cso_settlements env))
                               calculate_grid_transformation not_found (map name grouped) of
                          Inl e \<Rightarrow> SystemExit1
                        | Inr fd \<Rightarrow> Written fd True))"
    by blast
  have len: "length matched + length not_found = length grouped"
    using attach_coordinates_parts [OF a] by blast
  have halt: "main env = SystemExit1" if "length grouped < 10 * length not_found"
  proof -
    have "high_failure_rate not_found (map name grouped)"
      using that by (auto simp: gate_threshold)
    then show ?thesis using m by simp
  qed
  have pass: "\<exists>fd. main env = Written fd True"
    if "10 * length not_found \<le> length grouped" "grouped \<noteq> []"
      "\<forall>g \<in> set (group_settlements matched 30). sum_population g \<noteq> 0"
  proof -
    have gate: "\<not> high_failure_rate not_found (map name grouped)"
      using that(1) by (simp add: gate_threshold)
    have ne: "matched \<noteq> []"
    proof
      assume "matched = []"
      then have "length not_found = length grouped" using len by simp
      then show False using that(1,2) by simp
    qed
    have locs: "\<forall>nm. results st nm =
                 (case (case ck_locations env of None \<Rightarrow> None | Some r \<Rightarrow> r nm) of
                    Some l \<Rightarrow> Some l
                  | None \<Rightarrow> if nm \<in> set (map name grouped) then geocode env nm else None)"
      using fetch_locations_batch_run [OF key, of 50 "map name grouped" "ck_locations env" "geocode env"] st
      by auto
    from main_fresh_written [OF fresh key g locs a gate ne that(3)] show ?thesis by blast
  qed
  show ?thesis using g st a halt pass by blast
qed

text \<open>
  C6: at or below 10\% unresolved the pipeline writes the dataset and clears the
  checkpoints. In this run the only settlement has population 0 and is resolved, so the
  unresolved rate is 0; \<open>process_settlement_group\<close> divides by the cluster's total
  population 0, the exception reaches \<open>except Exception\<close>, and the run ends with
  \<open>SystemExit(1)\<close> without writing the dataset or clearing the checkpoints.
\<close>

theorem zero_population_run_halts:
  "main
     \<lparr> append_mode = False, api_key = Some ''key'', existing_data = None,
       cso_settlements =
         [\<lparr> name = ''Inishmore, Galway'', population = 0, constituent_settlements = None \<rparr>],
       ck_grouped_settlements = None, ck_locations = None, ck_final_settlements = None,
       geocode = [''Inishmore, Galway'' \<mapsto> (53, - 9)] \<rparr> = SystemExit1 \<and>
   failure_rate_of [] [''Inishmore, Galway''] = Inr 0 \<and>
   \<not> high_failure_rate [] [''Inishmore, Galway'']"
proof -
  let ?cso = "[\<lparr> name = ''Inishmore, Galway'', population = 0, constituent_settlements = None \<rparr>]"
  let ?g = "[''Inishmore, Galway'' \<mapsto> (53::real, - 9::real)]"
  let ?env = "\<lparr> append_mode = False, api_key = Some ''key'', existing_data = None,
         cso_settlements = ?cso,
         ck_grouped_settlements = None, ck_locations = None, ck_final_settlements = None,
         geocode = ?g \<rparr>"
  have "fetch_locations_batch (Some ''key'') [''Inishmore, Galway''] 50 None ?g
          = Inr \<lparr> results = ?g, requests = [''Inishmore, Galway''], saved = Some ?g \<rparr>"
    by (simp add: fetch_locations_batch_def process_batches_step process_batches_done
          process_batch_def resolve_name_def Let_def)
  then have "main ?env = SystemExit1"
    by (simp add: main_def pregroup_result attach_coordinates_def gate_threshold stage5_def
          group_settlements_def sort_by_population_desc_def process_settlement_group_def
          sum_population_def Let_def)
  then show ?thesis
    by (simp add: gate_threshold failure_rate_of_def)
qed

end
